theory Spec2Isabelle
  imports Main "HOL-Library.Sublist"
begin

section \<open>Strings\<close>

text \<open>
  A JavaScript string is modelled by the byte list of its UTF-8 encoding, the encoding in
  which \<^verbatim>\<open>run\<close> reads and writes the output file. All characters that the program
  treats specially (brackets, parentheses, digits, the markers, \<^verbatim>\<open>&\<close>, \<^verbatim>\<open>=\<close>,
  \<^verbatim>\<open>?\<close>, \<^verbatim>\<open>#\<close>) are ASCII, one byte each; the white space and line terminator
  characters beyond ASCII are recognised by their UTF-8 byte sequences. Offsets count
  bytes instead of UTF-16 code units; the program only ever compares two offsets into the
  same string and slices at offsets found by \<^verbatim>\<open>indexOf\<close>, which is the same in either
  unit.
\<close>

abbreviation TAB :: char where "TAB \<equiv> CHR 0x09"
abbreviation LF :: char where "LF \<equiv> CHR 0x0A"
abbreviation CR :: char where "CR \<equiv> CHR 0x0D"
abbreviation SP :: char where "SP \<equiv> CHR 0x20"

text \<open>\<^verbatim>\<open>s.indexOf(pat)\<close>: offset of the first occurrence; \<open>None\<close> stands for \<^verbatim>\<open>-1\<close>.\<close>

fun indexOf :: "string \<Rightarrow> string \<Rightarrow> nat option" where
  "indexOf [] pat = (if pat = [] then Some 0 else None)"
| "indexOf (c # cs) pat =
     (if prefix pat (c # cs) then Some 0 else map_option Suc (indexOf cs pat))"

text \<open>\<^verbatim>\<open>s.slice(a, b)\<close> and \<^verbatim>\<open>s.slice(a)\<close> for offsets \<open>0 \<le> a\<close>, \<open>0 \<le> b\<close>
  (empty when \<open>b \<le> a\<close>, clipped at the end of the string).\<close>

definition slice :: "string \<Rightarrow> nat \<Rightarrow> nat \<Rightarrow> string" where
  "slice s a b = take (b - a) (drop a s)"

definition slice_from :: "string \<Rightarrow> nat \<Rightarrow> string" where
  "slice_from s a = drop a s"

text \<open>\<^verbatim>\<open>xs.join(sep)\<close> on an array of strings.\<close>

fun join :: "string \<Rightarrow> string list \<Rightarrow> string" where
  "join sep [] = []"
| "join sep [x] = x"
| "join sep (x # y # ys) = x @ sep @ join sep (y # ys)"

section \<open>Constants and link records\<close>

definition MARKER_START :: string where
  "MARKER_START = ''<!-- rss-action:start -->''"

definition MARKER_END :: string where
  "MARKER_END = ''<!-- rss-action:end -->''"

text \<open>The objects \<^verbatim>\<open>{ title, url, date }\<close> of \<^verbatim>\<open>parseSection\<close> and \<^verbatim>\<open>run\<close>.\<close>

record link =
  title :: string
  url :: string
  date :: string

section \<open>Rendering the managed section\<close>

definition render_line :: "link \<Rightarrow> string" where
  "render_line l = ''- ['' @ title l @ '']('' @ url l @ '') - '' @ date l"

definition renderSection :: "link list \<Rightarrow> string" where
  "renderSection ls =
     (let lines = map render_line ls;
          body = (if lines \<noteq> [] then [LF] @ join [LF] lines @ [LF] else [LF])
      in MARKER_START @ body @ MARKER_END)"

section \<open>White space and line terminators\<close>

text \<open>
  The UTF-8 encodings of the characters of the ECMAScript productions WhiteSpace and
  LineTerminator: the class \<^verbatim>\<open>\s\<close> of a regular expression and the characters that
  \<^verbatim>\<open>trim\<close> and \<^verbatim>\<open>trimEnd\<close> remove. They are U+0009 to U+000D, U+0020, U+00A0,
  U+1680, U+2000 to U+200A, U+2028, U+2029, U+202F, U+205F, U+3000 and U+FEFF.
\<close>

definition ws_seqs :: "string list" where
  "ws_seqs =
     [[TAB], [LF], [CHR 0x0B], [CHR 0x0C], [CR], [SP],
      [CHR 0xC2, CHR 0xA0],
      [CHR 0xE1, CHR 0x9A, CHR 0x80],
      [CHR 0xE2, CHR 0x80, CHR 0x80], [CHR 0xE2, CHR 0x80, CHR 0x81],
      [CHR 0xE2, CHR 0x80, CHR 0x82], [CHR 0xE2, CHR 0x80, CHR 0x83],
      [CHR 0xE2, CHR 0x80, CHR 0x84], [CHR 0xE2, CHR 0x80, CHR 0x85],
      [CHR 0xE2, CHR 0x80, CHR 0x86], [CHR 0xE2, CHR 0x80, CHR 0x87],
      [CHR 0xE2, CHR 0x80, CHR 0x88], [CHR 0xE2, CHR 0x80, CHR 0x89],
      [CHR 0xE2, CHR 0x80, CHR 0x8A],
      [CHR 0xE2, CHR 0x80, CHR 0xA8], [CHR 0xE2, CHR 0x80, CHR 0xA9],
      [CHR 0xE2, CHR 0x80, CHR 0xAF],
      [CHR 0xE2, CHR 0x81, CHR 0x9F],
      [CHR 0xE3, CHR 0x80, CHR 0x80],
      [CHR 0xEF, CHR 0xBB, CHR 0xBF]]"

text \<open>LineTerminator: U+000A, U+000D, U+2028, U+2029.\<close>

definition lt_seqs :: "string list" where
  "lt_seqs = [[LF], [CR], [CHR 0xE2, CHR 0x80, CHR 0xA8], [CHR 0xE2, CHR 0x80, CHR 0xA9]]"

text \<open>The length of the first of \<open>seqs\<close> that \<open>s\<close> starts with, \<open>0\<close> if there is none.\<close>

definition match_len :: "string list \<Rightarrow> string \<Rightarrow> nat" where
  "match_len seqs s = (case find (\<lambda>w. prefix w s) seqs of None \<Rightarrow> 0 | Some w \<Rightarrow> length w)"

function strip_leading :: "string list \<Rightarrow> string \<Rightarrow> string" where
  "strip_leading seqs s =
     (if match_len seqs s = 0 \<or> s = [] then s
      else strip_leading seqs (drop (match_len seqs s) s))"
  by pat_completeness auto
termination
  by (relation "measure (\<lambda>(seqs, s). length s)") auto

definition trimStart :: "string \<Rightarrow> string" where
  "trimStart s = strip_leading ws_seqs s"

definition trimEnd :: "string \<Rightarrow> string" where
  "trimEnd s = rev (strip_leading (map rev ws_seqs) (rev s))"

definition trim :: "string \<Rightarrow> string" where
  "trim s = trimEnd (trimStart s)"

text \<open>\<^verbatim>\<open>s.replace(/\s+/g, ' ')\<close>: every maximal run of white space becomes one space.
  \<open>in_run\<close> says that the preceding character was white space.\<close>

function collapse_ws :: "bool \<Rightarrow> string \<Rightarrow> string" where
  "collapse_ws in_run s =
     (if s = [] then []
      else if match_len ws_seqs s = 0 then hd s # collapse_ws False (tl s)
      else (if in_run then [] else [SP]) @ collapse_ws True (drop (match_len ws_seqs s) s))"
  by pat_completeness auto
termination
  by (relation "measure (\<lambda>(r, s). length s)") auto

section \<open>Sanitising a feed item title\<close>

text \<open>\<^verbatim>\<open>sanitiseTitle(raw)\<close>; \<open>None\<close> is an absent title (\<^verbatim>\<open>undefined\<close>), which like the
  empty string is falsy and replaced by the placeholder.\<close>

definition sanitiseTitle :: "string option \<Rightarrow> string" where
  "sanitiseTitle raw =
     trim (collapse_ws False
       (filter (\<lambda>c. c \<noteq> CHR ''['' \<and> c \<noteq> CHR '']'')
         (case raw of None \<Rightarrow> ''Untitled'' | Some r \<Rightarrow> if r = [] then ''Untitled'' else r)))"

section \<open>Parsing the managed section\<close>

text \<open>
  The pattern of \<^verbatim>\<open>parseSection\<close> is
  \<^verbatim>\<open>/^- \[(.+?)\]\(([^)]+)\)(?: - (\d{4}-\d{2}-\d{2}))?/gm\<close>.
  The functions below are the backtracking matcher of this pattern, one per part.
\<close>

definition is_digit :: "char \<Rightarrow> bool" where
  "is_digit c = (c \<in> set ''0123456789'')"

text \<open>\<^verbatim>\<open>\d{4}-\d{2}-\d{2}\<close> on a string of exactly ten characters.\<close>

definition is_date :: "string \<Rightarrow> bool" where
  "is_date d =
     list_all2 (\<lambda>dash c. if dash then c = CHR ''-'' else is_digit c)
       [False, False, False, False, True, False, False, True, False, False] d"

text \<open>The optional group \<^verbatim>\<open>(?: - (\d{4}-\d{2}-\d{2}))?\<close>: greedy, so it takes the date
  when one is there; the result is capture group 3.\<close>

definition opt_date :: "string \<Rightarrow> string option" where
  "opt_date s =
     (if prefix '' - '' s \<and> is_date (take 10 (drop 3 s)) then Some (take 10 (drop 3 s))
      else None)"

text \<open>
  \<^verbatim>\<open>\]\(([^)]+)\)(?: - (...))?\<close>, the rest of the pattern after the title. The greedy
  \<^verbatim>\<open>[^)]+\<close> takes the longest run without a closing parenthesis; giving characters back
  never helps, because the character after a shorter run is not a closing parenthesis.
  The result is capture group 2, capture group 3 and the number of characters matched.
\<close>

definition after_title :: "string \<Rightarrow> (string \<times> string option \<times> nat) option" where
  "after_title s =
     (if prefix '']('' s then
        (let r = drop 2 s;
             u = takeWhile (\<lambda>c. c \<noteq> CHR '')'') r;
             r' = dropWhile (\<lambda>c. c \<noteq> CHR '')'') r
         in if u = [] \<or> r' = [] then None
            else (let d = opt_date (tl r')
                  in Some (u, d, 2 + length u + 1 + (case d of None \<Rightarrow> 0 | Some _ \<Rightarrow> 13))))
      else None)"

text \<open>\<open>s\<close> starts with a line terminator: the dot of a pattern does not match there.\<close>

definition lt_prefix :: "string \<Rightarrow> bool" where
  "lt_prefix s = (match_len lt_seqs s \<noteq> 0)"

text \<open>
  The lazy \<^verbatim>\<open>(.+?)\<close> followed by the rest of the pattern: the dot takes one more
  character, then the rest is tried, and only if the rest fails does the dot go on.
  \<open>acc\<close> holds the characters the dot has taken so far.
\<close>

fun title_lazy :: "string \<Rightarrow> string \<Rightarrow> (string \<times> string \<times> string option \<times> nat) option" where
  "title_lazy acc [] = None"
| "title_lazy acc (c # cs) =
     (if lt_prefix (c # cs) then None
      else (case after_title cs of
              Some (u, d, n) \<Rightarrow> Some (acc @ [c], u, d, n)
            | None \<Rightarrow> title_lazy (acc @ [c]) cs))"

text \<open>The pattern tried at one position (where \<^verbatim>\<open>^\<close> has been found to hold): the three
  capture groups and the length of the match.\<close>

definition lineRe_at :: "string \<Rightarrow> (string \<times> string \<times> string option \<times> nat) option" where
  "lineRe_at s =
     (if prefix ''- ['' s then
        (case title_lazy [] (drop 3 s) of
           Some (t, u, d, n) \<Rightarrow> Some (t, u, d, 3 + length t + n)
         | None \<Rightarrow> None)
      else None)"

text \<open>\<^verbatim>\<open>^\<close> with the flag \<^verbatim>\<open>m\<close>: at the start of the input or right after a line
  terminator. \<open>before\<close> is the input up to the position.\<close>

definition at_line_start :: "string \<Rightarrow> bool" where
  "at_line_start before = (before = [] \<or> match_len (map rev lt_seqs) (rev before) \<noteq> 0)"

text \<open>
  The loop \<^verbatim>\<open>while ((m = lineRe.exec(sectionBody)) !== null) links.push(...)\<close>.
  The section body is \<open>before @ rest\<close> and \<open>length before\<close> is \<^verbatim>\<open>lineRe.lastIndex\<close>:
  \<^verbatim>\<open>exec\<close> tries the positions from \<^verbatim>\<open>lastIndex\<close> on, one after the other, and sets
  \<^verbatim>\<open>lastIndex\<close> to the end of the match it finds; when it finds none the loop ends.
  \<open>today\<close> is the value of \<^verbatim>\<open>today()\<close>.
\<close>

function links_loop :: "string \<Rightarrow> string \<Rightarrow> string \<Rightarrow> link list" where
  "links_loop today before rest =
     (if rest = [] then []
      else if at_line_start before then
        (case lineRe_at rest of
           Some (t, u, d, n) \<Rightarrow>
             \<lparr>title = t, url = u, date = (case d of Some x \<Rightarrow> x | None \<Rightarrow> today)\<rparr>
               # links_loop today (before @ take n rest) (drop n rest)
         | None \<Rightarrow> links_loop today (before @ [hd rest]) (tl rest))
      else links_loop today (before @ [hd rest]) (tl rest))"
  by pat_completeness auto
termination
  by (relation "measure (\<lambda>(t, b, r). length r)")
     (auto simp: lineRe_at_def split: if_splits option.splits)

text \<open>The object \<^verbatim>\<open>{ before, after, links }\<close> that \<^verbatim>\<open>parseSection\<close> returns.\<close>

record managed_section =
  before :: string
  after :: string
  links :: "link list"

definition parseSection :: "string \<Rightarrow> string \<Rightarrow> managed_section" where
  "parseSection today content =
     (let si = indexOf content MARKER_START;
          ei = indexOf content MARKER_END
      in if si = None \<or> ei = None \<or> the si \<ge> the ei then
           (let trimmed = trimEnd content
            in \<lparr>before = (if trimmed \<noteq> [] then trimmed @ [LF, LF] else []),
                after = [LF],
                links = []\<rparr>)
         else
           (let sectionBody = slice content (the si + length MARKER_START) (the ei)
            in \<lparr>before = slice content 0 (the si),
                after = slice_from content (the ei + length MARKER_END),
                links = links_loop today [] sectionBody\<rparr>))"

section \<open>The platform's URL and URLSearchParams\<close>

text \<open>
  \<^verbatim>\<open>addUTM\<close> and \<^verbatim>\<open>stripUTM\<close> use the classes \<^verbatim>\<open>URL\<close> and \<^verbatim>\<open>URLSearchParams\<close> of the
  JavaScript platform, which implement the WHATWG URL Standard. This section models the
  standard as far as the two functions exercise it:
  \<^item> the parser first removes leading and trailing C0 control or space characters and
    all ASCII tab and newline characters;
  \<^item> the first \<^verbatim>\<open>#\<close> starts the fragment and the first \<^verbatim>\<open>?\<close> before it the query;
  \<^item> what precedes them (scheme, credentials, host, port and path) is parsed, checked and
    normalised by the platform; this is the only place where the parser can fail;
  \<^item> the fragment is percent-encoded with the fragment percent-encode set;
  \<^item> the \<^verbatim>\<open>searchParams\<close> list is the \<^verbatim>\<open>application/x-www-form-urlencoded\<close> parse of
    the query: the pieces between \<^verbatim>\<open>&\<close> are split at the first \<^verbatim>\<open>=\<close>, \<^verbatim>\<open>+\<close> becomes a
    space, percent-escapes are decoded, and the bytes are decoded as UTF-8, every
    ill-formed sequence becoming U+FFFD;
  \<^item> every change of the list writes its serialisation back as the query (no query at all
    when the serialisation is empty);
  \<^item> the serialisation of the URL is what precedes the query, then \<^verbatim>\<open>?\<close> and the query
    if there is one, then \<^verbatim>\<open>#\<close> and the fragment if there is one.

  The platform's treatment of scheme, credentials, host, port and path (the scheme and
  host syntax checks, IDNA, IPv4 and IPv6 addresses, ports, letter case, dot segments,
  percent-encoding) is not written out. It is a parameter of the model, a function of
  type \<open>head_parser\<close>: it takes the text before the query and returns the serialisation of
  the parsed components, or \<open>None\<close> where the parser fails. The functions below take it
  as their first argument, so every statement about them holds for the platform's own
  function. The parser's percent-encoding of the query is left out because the query is
  only read through the urlencoded parser, which percent-decodes it again. The model
  follows the current text of the standard, in which the update steps change the query
  only.
\<close>

definition is_alpha :: "char \<Rightarrow> bool" where
  "is_alpha c = (c \<in> set ''abcdefghijklmnopqrstuvwxyzABCDEFGHIJKLMNOPQRSTUVWXYZ'')"

definition is_alnum :: "char \<Rightarrow> bool" where
  "is_alnum c = (is_alpha c \<or> is_digit c)"

definition is_hex :: "char \<Rightarrow> bool" where
  "is_hex c = (c \<in> set ''0123456789ABCDEFabcdef'')"

definition hex_val :: "char \<Rightarrow> nat" where
  "hex_val c =
     (if is_digit c then of_char c - 48
      else if c \<in> set ''ABCDEF'' then of_char c - 55
      else of_char c - 87)"

definition hex_char :: "nat \<Rightarrow> char" where
  "hex_char n = ''0123456789ABCDEF'' ! n"

text \<open>Percent-encode a byte: \<^verbatim>\<open>%\<close> and two upper-case hexadecimal digits.\<close>

definition percent_encode_byte :: "char \<Rightarrow> string" where
  "percent_encode_byte c =
     [CHR ''%'', hex_char (of_char c div 16), hex_char (of_char c mod 16)]"

text \<open>Percent-decode a byte sequence.\<close>

fun percent_decode :: "string \<Rightarrow> string" where
  "percent_decode (c # h1 # h2 # cs) =
     (if c = CHR ''%'' \<and> is_hex h1 \<and> is_hex h2
      then char_of (16 * hex_val h1 + hex_val h2) # percent_decode cs
      else c # percent_decode (h1 # h2 # cs))"
| "percent_decode (c # cs) = c # percent_decode cs"
| "percent_decode [] = []"

text \<open>Strictly split a string on a character, as the urlencoded parser splits on
  \<^verbatim>\<open>&\<close>: \<open>n\<close> separators give \<open>n + 1\<close> pieces.\<close>

fun split_on :: "char \<Rightarrow> string \<Rightarrow> string list" where
  "split_on sep [] = [[]]"
| "split_on sep (c # cs) =
     (if c = sep then [] # split_on sep cs
      else (case split_on sep cs of p # ps \<Rightarrow> (c # p) # ps | [] \<Rightarrow> [[c]]))"

text \<open>
  UTF-8 decode without BOM, written on the UTF-8 encoding of the result: a well-formed
  sequence is copied, and a lead byte with the continuation bytes it was followed by, or
  a byte that cannot start a sequence, becomes the encoding of U+FFFD. \<open>utf8_lead\<close>
  gives the number of continuation bytes a lead byte needs and the bounds of the first
  of them; \<open>utf8_conts\<close> counts the continuation bytes that are there.
\<close>

definition REPLACEMENT :: string where
  "REPLACEMENT = [CHR 0xEF, CHR 0xBF, CHR 0xBD]"

definition utf8_lead :: "char \<Rightarrow> (nat \<times> nat \<times> nat) option" where
  "utf8_lead b =
     (let v = (of_char b :: nat)
      in if 0xC2 \<le> v \<and> v \<le> 0xDF then Some (1, 0x80, 0xBF)
         else if v = 0xE0 then Some (2, 0xA0, 0xBF)
         else if v = 0xED then Some (2, 0x80, 0x9F)
         else if 0xE1 \<le> v \<and> v \<le> 0xEF then Some (2, 0x80, 0xBF)
         else if v = 0xF0 then Some (3, 0x90, 0xBF)
         else if v = 0xF4 then Some (3, 0x80, 0x8F)
         else if 0xF1 \<le> v \<and> v \<le> 0xF3 then Some (3, 0x80, 0xBF)
         else None)"

fun utf8_conts :: "nat \<Rightarrow> nat \<Rightarrow> nat \<Rightarrow> string \<Rightarrow> nat" where
  "utf8_conts 0 lo hi bs = 0"
| "utf8_conts (Suc n) lo hi [] = 0"
| "utf8_conts (Suc n) lo hi (c # cs) =
     (if lo \<le> of_char c \<and> of_char c \<le> hi then Suc (utf8_conts n 0x80 0xBF cs) else 0)"

function utf8_lossy :: "string \<Rightarrow> string" where
  "utf8_lossy [] = []"
| "utf8_lossy (b # bs) =
     (if (of_char b :: nat) < 0x80 then b # utf8_lossy bs
      else (case utf8_lead b of
              None \<Rightarrow> REPLACEMENT @ utf8_lossy bs
            | Some (n, lo, hi) \<Rightarrow>
                if utf8_conts n lo hi bs = n then (b # take n bs) @ utf8_lossy (drop n bs)
                else REPLACEMENT @ utf8_lossy (drop (utf8_conts n lo hi bs) bs)))"
  by pat_completeness auto
termination
  by (relation "measure length") auto

definition plus_to_space :: "string \<Rightarrow> string" where
  "plus_to_space s = map (\<lambda>c. if c = CHR ''+'' then SP else c) s"

text \<open>The \<^verbatim>\<open>application/x-www-form-urlencoded\<close> parser.\<close>

definition parse_pair :: "string \<Rightarrow> string \<times> string" where
  "parse_pair bytes =
     (let name = takeWhile (\<lambda>c. c \<noteq> CHR ''='') bytes;
          rest = dropWhile (\<lambda>c. c \<noteq> CHR ''='') bytes;
          val = (if rest = [] then [] else tl rest)
      in (utf8_lossy (percent_decode (plus_to_space name)),
          utf8_lossy (percent_decode (plus_to_space val))))"

definition parse_urlencoded :: "string \<Rightarrow> (string \<times> string) list" where
  "parse_urlencoded input = map parse_pair (filter (\<lambda>b. b \<noteq> []) (split_on (CHR ''&'') input))"

text \<open>The \<^verbatim>\<open>application/x-www-form-urlencoded\<close> serialiser: a space becomes \<^verbatim>\<open>+\<close>,
  ASCII letters and digits and \<^verbatim>\<open>*-._\<close> stay, every other byte is percent-encoded.\<close>

definition urlencode_byte :: "char \<Rightarrow> string" where
  "urlencode_byte c =
     (if c = SP then ''+''
      else if is_alnum c \<or> c \<in> set ''*-._'' then [c]
      else percent_encode_byte c)"

definition urlencode :: "string \<Rightarrow> string" where
  "urlencode s = concat (map urlencode_byte s)"

definition tuple_text :: "string \<times> string \<Rightarrow> string" where
  "tuple_text t = urlencode (fst t) @ ''='' @ urlencode (snd t)"

definition serialize_urlencoded :: "(string \<times> string) list \<Rightarrow> string" where
  "serialize_urlencoded tuples = join ''&'' (map tuple_text tuples)"

text \<open>The fragment percent-encode set: C0 controls, space, \<^verbatim>\<open>"\<close>, \<^verbatim>\<open><\<close>, \<^verbatim>\<open>>\<close>,
  the backtick, and every byte above \<^verbatim>\<open>~\<close>.\<close>

definition encode_fragment_byte :: "char \<Rightarrow> string" where
  "encode_fragment_byte c =
     (if (of_char c :: nat) \<le> 0x20 \<or> (of_char c :: nat) > 0x7E
         \<or> c \<in> {CHR 0x22, CHR ''<'', CHR ''>'', CHR 0x60}
      then percent_encode_byte c else [c])"

definition encode_fragment :: "string \<Rightarrow> string" where
  "encode_fragment s = concat (map encode_fragment_byte s)"

definition is_c0_or_space :: "char \<Rightarrow> bool" where
  "is_c0_or_space c = ((of_char c :: nat) \<le> 0x20)"

definition is_tab_or_newline :: "char \<Rightarrow> bool" where
  "is_tab_or_newline c = (c = TAB \<or> c = LF \<or> c = CR)"

definition url_preprocess :: "string \<Rightarrow> string" where
  "url_preprocess input =
     filter (\<lambda>c. \<not> is_tab_or_newline c)
       (rev (dropWhile is_c0_or_space (rev (dropWhile is_c0_or_space input))))"

text \<open>The text before the first \<open>sep\<close>, and the text after it if \<open>sep\<close> occurs.\<close>

definition split_first :: "char \<Rightarrow> string \<Rightarrow> string \<times> string option" where
  "split_first sep s =
     (takeWhile (\<lambda>c. c \<noteq> sep) s,
      case dropWhile (\<lambda>c. c \<noteq> sep) s of [] \<Rightarrow> None | _ # r \<Rightarrow> Some r)"

text \<open>A \<^verbatim>\<open>URL\<close> object with its \<^verbatim>\<open>searchParams\<close> list.\<close>

record URL =
  head :: string
  query :: "string option"
  fragment :: "string option"
  searchParams :: "(string \<times> string) list"

text \<open>The platform's parser and serialiser of scheme, credentials, host, port and path.\<close>

type_synonym head_parser = "string \<Rightarrow> string option"

text \<open>\<^verbatim>\<open>new URL(input)\<close>; \<open>None\<close> when the constructor throws a \<^verbatim>\<open>TypeError\<close>.\<close>

definition new_URL :: "head_parser \<Rightarrow> string \<Rightarrow> URL option" where
  "new_URL hp input =
     (let s = url_preprocess input;
          (s1, frag) = split_first (CHR ''#'') s;
          (h, q) = split_first (CHR ''?'') s1
      in case hp h of
           None \<Rightarrow> None
         | Some h' \<Rightarrow>
             Some \<lparr>head = h', query = q, fragment = map_option encode_fragment frag,
                   searchParams = (case q of None \<Rightarrow> [] | Some qs \<Rightarrow> parse_urlencoded qs)\<rparr>)"

text \<open>The update steps of \<^verbatim>\<open>URLSearchParams\<close>: the list is written back as the query.\<close>

definition update_query :: "(string \<times> string) list \<Rightarrow> URL \<Rightarrow> URL" where
  "update_query tuples u =
     (let serializedQuery = serialize_urlencoded tuples
      in u\<lparr>searchParams := tuples,
           query := (if serializedQuery = [] then None else Some serializedQuery)\<rparr>)"

text \<open>\<^verbatim>\<open>url.searchParams.set(name, value)\<close>: the first tuple of that name gets the value
  and the others of that name are removed; without such a tuple one is appended. The
  arguments of \<^verbatim>\<open>set\<close> and \<^verbatim>\<open>delete\<close> are converted to strings of scalar values first.\<close>

fun set_tuple :: "string \<Rightarrow> string \<Rightarrow> (string \<times> string) list \<Rightarrow> (string \<times> string) list" where
  "set_tuple name val [] = [(name, val)]"
| "set_tuple name val ((k, v) # tuples) =
     (if k = name then (name, val) # filter (\<lambda>(k', v'). k' \<noteq> name) tuples
      else (k, v) # set_tuple name val tuples)"

definition searchParams_set :: "string \<Rightarrow> string \<Rightarrow> URL \<Rightarrow> URL" where
  "searchParams_set name val u =
     update_query (set_tuple (utf8_lossy name) (utf8_lossy val) (searchParams u)) u"

text \<open>\<^verbatim>\<open>url.searchParams.delete(name)\<close>.\<close>

definition searchParams_delete :: "string \<Rightarrow> URL \<Rightarrow> URL" where
  "searchParams_delete name u =
     update_query (filter (\<lambda>(k, v). k \<noteq> utf8_lossy name) (searchParams u)) u"

text \<open>\<^verbatim>\<open>url.toString()\<close>.\<close>

definition toString :: "URL \<Rightarrow> string" where
  "toString u =
     head u @ (case query u of None \<Rightarrow> [] | Some q \<Rightarrow> CHR ''?'' # q)
       @ (case fragment u of None \<Rightarrow> [] | Some f \<Rightarrow> CHR ''#'' # f)"

section \<open>Adding and stripping the UTM parameters\<close>

text \<open>In both functions the \<^verbatim>\<open>catch\<close> branch is the case in which \<^verbatim>\<open>new URL\<close> throws.
  The first argument is the platform's parser of the text before the query.\<close>

definition addUTM :: "head_parser \<Rightarrow> string \<Rightarrow> string \<Rightarrow> string \<Rightarrow> string" where
  "addUTM hp rawUrl owner repo =
     (case new_URL hp rawUrl of
        None \<Rightarrow> rawUrl
      | Some u \<Rightarrow>
          toString
            (searchParams_set ''utm_campaign'' repo
              (searchParams_set ''utm_medium'' owner
                (searchParams_set ''utm_source'' ''github'' u))))"

definition stripUTM :: "head_parser \<Rightarrow> string \<Rightarrow> string" where
  "stripUTM hp rawUrl =
     (case new_URL hp rawUrl of
        None \<Rightarrow> rawUrl
      | Some u \<Rightarrow>
          toString
            (searchParams_delete ''utm_campaign''
              (searchParams_delete ''utm_medium''
                (searchParams_delete ''utm_source'' u))))"

section \<open>Numbers\<close>

text \<open>
  The JavaScript numbers the program computes with are integers or \<^verbatim>\<open>NaN\<close>. An integer
  is modelled by its mathematical value: a double rounds integers above \<open>2^53\<close> and
  becomes \<^verbatim>\<open>Infinity\<close> beyond about \<open>1.8 * 10^308\<close>, both of which exceed every array
  length, so the comparisons of the program come out the same.
\<close>

datatype jsnum = NaN | Num int

definition digit_val :: "char \<Rightarrow> int" where
  "digit_val c = int (of_char c) - 48"

text \<open>\<^verbatim>\<open>parseInt(s, 10)\<close>: leading white space, an optional sign, then the longest run of
  decimal digits; \<^verbatim>\<open>NaN\<close> when that run is empty.\<close>

definition parseInt10 :: "string \<Rightarrow> jsnum" where
  "parseInt10 s =
     (let s1 = trimStart s;
          s2 = (if prefix ''-'' s1 \<or> prefix ''+'' s1 then tl s1 else s1);
          z = takeWhile is_digit s2
      in if z = [] then NaN
         else Num ((if prefix ''-'' s1 then - 1 else 1)
                    * foldl (\<lambda>a c. 10 * a + digit_val c) 0 z))"

text \<open>\<^verbatim>\<open>Math.max(a, x)\<close> for an integer \<open>a\<close>: \<^verbatim>\<open>NaN\<close> when \<open>x\<close> is.\<close>

definition Math_max :: "int \<Rightarrow> jsnum \<Rightarrow> jsnum" where
  "Math_max a x = (case x of NaN \<Rightarrow> NaN | Num n \<Rightarrow> Num (max a n))"

text \<open>\<^verbatim>\<open>n > x\<close> for an array length \<open>n\<close>: false when \<open>x\<close> is \<^verbatim>\<open>NaN\<close>.\<close>

definition num_gt :: "nat \<Rightarrow> jsnum \<Rightarrow> bool" where
  "num_gt n x = (case x of NaN \<Rightarrow> False | Num m \<Rightarrow> int n > m)"

text \<open>\<^verbatim>\<open>String(x)\<close>, also what a template literal makes of a number.\<close>

function decimal :: "nat \<Rightarrow> string" where
  "decimal n =
     (if 10 \<le> n then decimal (n div 10) @ [''0123456789'' ! (n mod 10)]
      else [''0123456789'' ! n])"
  by pat_completeness auto
termination
  by (relation "measure id") auto

definition String_num :: "jsnum \<Rightarrow> string" where
  "String_num x =
     (case x of
        NaN \<Rightarrow> ''NaN''
      | Num i \<Rightarrow> if 0 \<le> i then decimal (nat i) else CHR ''-'' # decimal (nat (- i)))"

text \<open>\<^verbatim>\<open>xs.slice(0, m)\<close> for an integer \<open>m\<close>: a negative \<open>m\<close> counts from the end.\<close>

definition array_slice0 :: "'a list \<Rightarrow> int \<Rightarrow> 'a list" where
  "array_slice0 xs m = (if m < 0 then take (length xs - nat (- m)) xs else take (nat m) xs)"

section \<open>The run\<close>

text \<open>
  What \<^verbatim>\<open>run\<close> reads from outside the program: the environment, the feed parser, the
  clock, the repository the action runs in, the output file and the answer of the
  pull-request API. \<open>url_head\<close> is the platform's parser of the text before the query
  of a URL. \<open>fetch\<close> is \<^verbatim>\<open>parser.parseURL\<close> followed by \<^verbatim>\<open>feed.items || []\<close>,
  \<open>None\<close> when the promise is rejected. \<open>isoDate\<close> is
  \<^verbatim>\<open>new Date(p).toISOString().slice(0, 10)\<close>, \<open>None\<close> when \<^verbatim>\<open>toISOString\<close> throws a
  \<^verbatim>\<open>RangeError\<close> (an invalid date). \<open>file_content\<close> is \<open>None\<close> when the output file does
  not exist. The file system, \<^verbatim>\<open>git\<close> and the API are taken to succeed.
\<close>

record feed_item =
  item_title :: "string option"
  item_link :: "string option"
  item_guid :: "string option"
  item_pubDate :: "string option"

record world =
  env :: "string \<Rightarrow> string option"
  url_head :: head_parser
  fetch :: "string \<Rightarrow> feed_item list option"
  isoDate :: "string \<Rightarrow> string option"
  today :: string
  timestamp :: string
  repo_owner :: string
  repo_name :: string
  file_content :: "string option"
  pr_html_url :: string

text \<open>What \<^verbatim>\<open>run\<close> does to the outside, in the order in which it does it. Log lines
  (\<^verbatim>\<open>core.info\<close>, \<^verbatim>\<open>core.warning\<close>) and the creation of the file's directory are left
  out. \<open>CreatePR\<close> carries title, head, base and body.\<close>

datatype effect =
    SetFailed string
  | SetOutput string string
  | WriteFile string string
  | Exec string "string list"
  | CreatePR string string string string

definition to_upper :: "char \<Rightarrow> char" where
  "to_upper c =
     (case map_of (zip ''abcdefghijklmnopqrstuvwxyz'' ''ABCDEFGHIJKLMNOPQRSTUVWXYZ'') c of
        Some C \<Rightarrow> C | None \<Rightarrow> c)"

text \<open>\<^verbatim>\<open>getInput(name, required)\<close>; \<open>Inl\<close> carries the message of the error thrown.\<close>

definition getInput :: "world \<Rightarrow> string \<Rightarrow> bool \<Rightarrow> string + string" where
  "getInput w name required =
     (let key = ''INPUT_'' @ map (\<lambda>c. if c = CHR ''-'' then CHR ''_'' else c) (map to_upper name);
          val = trim (case env w key of None \<Rightarrow> [] | Some v \<Rightarrow> v)
      in if required \<and> val = [] then
           Inl (''Required input '' @ [CHR 0x22] @ name @ [CHR 0x22] @ '' is missing.'')
         else Inr val)"

text \<open>\<^verbatim>\<open>getInput(name) || dflt\<close>.\<close>

definition input_or :: "world \<Rightarrow> string \<Rightarrow> string \<Rightarrow> string" where
  "input_or w name dflt =
     (case getInput w name False of Inl e \<Rightarrow> dflt | Inr v \<Rightarrow> if v = [] then dflt else v)"

record inputs =
  rssUrlsRaw :: string
  maxLinks :: jsnum
  outputFile :: string
  token :: string
  branchPfx :: string
  baseBranch :: string

text \<open>Step 1 of \<^verbatim>\<open>run\<close>, in the order of the source; a missing required input throws.\<close>

definition read_inputs :: "world \<Rightarrow> string + inputs" where
  "read_inputs w =
     (case getInput w ''rss_urls'' True of
        Inl e \<Rightarrow> Inl e
      | Inr urls \<Rightarrow>
          (let ml = Math_max 1 (parseInt10 (input_or w ''max_links'' ''10''));
               out = input_or w ''output_file'' ''links.md''
           in case getInput w ''github_token'' True of
                Inl e \<Rightarrow> Inl e
              | Inr tok \<Rightarrow>
                  Inr \<lparr>rssUrlsRaw = urls, maxLinks = ml, outputFile = out, token = tok,
                       branchPfx = input_or w ''branch_prefix'' ''rss-update'',
                       baseBranch = input_or w ''base_branch'' ''main''\<rparr>))"

text \<open>\<^verbatim>\<open>s.split(/[\n,]+/)\<close>: split on runs of newlines and commas.\<close>

definition is_sep :: "char \<Rightarrow> bool" where
  "is_sep c = (c = LF \<or> c = CHR '','')"

function split_runs :: "string \<Rightarrow> string list" where
  "split_runs s =
     (if dropWhile (\<lambda>c. \<not> is_sep c) s = [] then [takeWhile (\<lambda>c. \<not> is_sep c) s]
      else takeWhile (\<lambda>c. \<not> is_sep c) s
             # split_runs (dropWhile is_sep (dropWhile (\<lambda>c. \<not> is_sep c) s)))"
  by pat_completeness auto
termination
proof (relation "measure length")
  fix s :: string
  assume ne: "dropWhile (\<lambda>c. \<not> is_sep c) s \<noteq> []"
  then obtain x r where r: "dropWhile (\<lambda>c. \<not> is_sep c) s = x # r"
    by (cases "dropWhile (\<lambda>c. \<not> is_sep c) s") auto
  have "is_sep x"
    using hd_dropWhile [OF ne] r by simp
  then have "length (dropWhile is_sep (x # r)) \<le> length r"
    by (simp add: length_dropWhile_le)
  moreover have "length (x # r) \<le> length s"
    using length_dropWhile_le [of "\<lambda>c. \<not> is_sep c" s] r by simp
  ultimately show "(dropWhile is_sep (dropWhile (\<lambda>c. \<not> is_sep c) s), s) \<in> measure length"
    using r by simp
qed simp

definition rssUrls_of :: "string \<Rightarrow> string list" where
  "rssUrls_of raw = filter (\<lambda>u. u \<noteq> []) (map trim (split_runs raw))"

text \<open>\<^verbatim>\<open>a || b\<close> on strings that may be absent.\<close>

definition or_else :: "string option \<Rightarrow> string option \<Rightarrow> string option" where
  "or_else a b = (case a of Some x \<Rightarrow> if x = [] then b else a | None \<Rightarrow> b)"

text \<open>
  The inner loop of step 2 over the items of one feed: the links pushed onto
  \<^verbatim>\<open>freshItems\<close>. When the date of an item makes \<^verbatim>\<open>toISOString\<close> throw, the \<^verbatim>\<open>catch\<close> of
  the feed ends the loop, and the links pushed before stay.
\<close>

fun item_links :: "world \<Rightarrow> feed_item list \<Rightarrow> link list" where
  "item_links w [] = []"
| "item_links w (item # items) =
     (case or_else (item_link item) (item_guid item) of
        None \<Rightarrow> item_links w items
      | Some l \<Rightarrow>
          if l = [] then item_links w items
          else (case or_else (item_pubDate item) None of
                  None \<Rightarrow>
                    \<lparr>title = sanitiseTitle (item_title item), url = l, date = today w\<rparr>
                      # item_links w items
                | Some p \<Rightarrow>
                    (case isoDate w p of
                       None \<Rightarrow> []
                     | Some d \<Rightarrow>
                         \<lparr>title = sanitiseTitle (item_title item), url = l, date = d\<rparr>
                           # item_links w items)))"

text \<open>Step 2: a feed that cannot be fetched contributes nothing; at most 20 items of a
  feed are read.\<close>

definition fetch_feeds :: "world \<Rightarrow> string list \<Rightarrow> link list" where
  "fetch_feeds w rssUrls =
     concat (map (\<lambda>feedUrl. case fetch w feedUrl of
                               None \<Rightarrow> []
                             | Some items \<Rightarrow> item_links w (take 20 items)) rssUrls)"

text \<open>Step 5: the fresh items whose stripped URL is not the stripped URL of an existing
  link. The \<^verbatim>\<open>Set\<close> of the source is the set of the elements of the mapped array.\<close>

definition dedup :: "head_parser \<Rightarrow> link list \<Rightarrow> link list \<Rightarrow> link list" where
  "dedup hp freshItems existingLinks =
     (let existingBaseUrls = set (map (\<lambda>l. stripUTM hp (url l)) existingLinks)
      in filter (\<lambda>item. stripUTM hp (url item) \<notin> existingBaseUrls) freshItems)"

text \<open>Step 6: the new items in front of the existing links, cut to \<^verbatim>\<open>maxLinks\<close>; the
  result is \<^verbatim>\<open>allLinks\<close> and \<^verbatim>\<open>removedCount\<close>.\<close>

definition merge_links :: "jsnum \<Rightarrow> link list \<Rightarrow> link list \<Rightarrow> link list \<times> int" where
  "merge_links maxl newItems existingLinks =
     (let allLinks = newItems @ existingLinks
      in if num_gt (length allLinks) maxl then
           (case maxl of
              Num m \<Rightarrow> (array_slice0 allLinks m, int (length allLinks) - m)
            | NaN \<Rightarrow> (allLinks, 0))
         else (allLinks, 0))"

text \<open>The two outputs of a run that changes nothing.\<close>

definition no_change :: "effect list" where
  "no_change = [SetOutput ''pr_url'' [], SetOutput ''new_items_count'' ''0'']"

text \<open>Steps 6 to 9: merge, write the file, commit on a new branch, open the pull request.\<close>

definition publish :: "world \<Rightarrow> inputs \<Rightarrow> link list \<Rightarrow> managed_section \<Rightarrow> effect list" where
  "publish w i newItems parsed =
     (let (allLinks, removedCount) = merge_links (maxLinks i) newItems (links parsed);
          newContent = before parsed @ renderSection allLinks @ after parsed;
          ts = take 19 (map (\<lambda>c. if c = CHR '':'' \<or> c = CHR ''.'' then CHR ''-'' else c)
                         (timestamp w));
          branchName = branchPfx i @ ''/'' @ ts;
          remoteUrl = ''https://x-access-token:'' @ token i @ ''@github.com/''
                        @ repo_owner w @ ''/'' @ repo_name w @ ''.git'';
          count = decimal (length newItems);
          newLinkLines = join [LF] (map (\<lambda>l. ''- ['' @ title l @ '']('' @ url l @ '')'') newItems);
          removedNote =
            (if removedCount > 0 then
               [LF] @ ''> Removed **'' @ String_num (Num removedCount)
                 @ ''** oldest link(s) to stay within `max_links: ''
                 @ String_num (maxLinks i) @ ''`.''
             else []);
          prBody = join [LF]
            [''## RSS Feed Update'', [],
             ''Added **'' @ count @ ''** new link(s) from RSS feeds.'' @ removedNote, [],
             ''### New links'', newLinkLines, [], ''---'',
             ''_Automatically created by [rss-action](https://github.com/''
               @ repo_owner w @ ''/'' @ repo_name w @ '')_'']
      in [WriteFile (outputFile i) newContent,
          Exec ''git'' [''config'', ''--local'', ''user.email'',
                        ''41898282+github-actions[bot]@users.noreply.github.com''],
          Exec ''git'' [''config'', ''--local'', ''user.name'', ''github-actions[bot]''],
          Exec ''git'' [''remote'', ''set-url'', ''origin'', remoteUrl],
          Exec ''git'' [''checkout'', ''-b'', branchName],
          Exec ''git'' [''add'', outputFile i],
          Exec ''git'' [''commit'', ''-m'',
                        ''chore(rss): add '' @ count @ '' new link(s) [automated]''],
          Exec ''git'' [''push'', ''--set-upstream'', ''origin'', branchName],
          CreatePR (''chore(rss): '' @ count @ '' new link(s) ''
                      @ [CHR 0xE2, CHR 0x80, CHR 0x94] @ '' '' @ take 10 ts)
                   branchName (baseBranch i) prBody,
          SetOutput ''pr_url'' (pr_html_url w),
          SetOutput ''new_items_count'' count])"

text \<open>Steps 3 to 5 on the fetched items: the decorated fresh items, the parsed file and
  the new items among the fresh ones.\<close>

definition freshItems_of :: "world \<Rightarrow> inputs \<Rightarrow> link list" where
  "freshItems_of w i =
     map (\<lambda>item. item\<lparr>url := addUTM (url_head w) (url item) (repo_owner w) (repo_name w)\<rparr>)
       (fetch_feeds w (rssUrls_of (rssUrlsRaw i)))"

definition existing_of :: "world \<Rightarrow> managed_section" where
  "existing_of w =
     parseSection (today w)
       (case file_content w of
          Some c \<Rightarrow> c
        | None \<Rightarrow> ''# RSS Links'' @ [LF, LF] @ MARKER_START @ [LF] @ MARKER_END @ [LF])"

definition newItems_of :: "world \<Rightarrow> inputs \<Rightarrow> link list" where
  "newItems_of w i = dedup (url_head w) (freshItems_of w i) (links (existing_of w))"

text \<open>\<^verbatim>\<open>run().catch(err => core.setFailed(err.message))\<close>.\<close>

definition run :: "world \<Rightarrow> effect list" where
  "run w =
     (case read_inputs w of
        Inl e \<Rightarrow> [SetFailed e]
      | Inr i \<Rightarrow>
          if rssUrls_of (rssUrlsRaw i) = [] then [SetFailed ''No RSS URLs provided.'']
          else if fetch_feeds w (rssUrls_of (rssUrlsRaw i)) = [] then no_change
          else if newItems_of w i = [] then no_change
          else publish w i (newItems_of w i) (existing_of w))"

section \<open>Notions used in the statements\<close>

text \<open>The three parameter names that \<^verbatim>\<open>addUTM\<close> sets and \<^verbatim>\<open>stripUTM\<close> deletes.\<close>

definition utm_keys :: "string set" where
  "utm_keys = {''utm_source'', ''utm_medium'', ''utm_campaign''}"

text \<open>The three \<^verbatim>\<open>set\<close> calls of \<^verbatim>\<open>addUTM\<close> on the tuple list.\<close>

definition utm_set :: "string \<Rightarrow> string \<Rightarrow> (string \<times> string) list \<Rightarrow> (string \<times> string) list" where
  "utm_set owner repo tuples =
     set_tuple ''utm_campaign'' (utf8_lossy repo)
       (set_tuple ''utm_medium'' (utf8_lossy owner) (set_tuple ''utm_source'' ''github'' tuples))"

text \<open>
  Two properties of the platform's parser that the standard provides for: what it
  returns is a serialisation, so parsing it again returns it unchanged; and a
  serialisation starts with its scheme and holds no \<^verbatim>\<open>?\<close>, no \<^verbatim>\<open>#\<close>, no tab and no
  newline, these being delimiters, removed from the input, or percent-encoded.
\<close>

definition head_laws :: "head_parser \<Rightarrow> bool" where
  "head_laws hp =
     (\<forall>h h'. hp h = Some h' \<longrightarrow>
        hp h' = Some h' \<and> h' \<noteq> [] \<and> \<not> is_c0_or_space (hd h')
        \<and> (\<forall>c \<in> set h'. c \<noteq> CHR ''?'' \<and> c \<noteq> CHR ''#'' \<and> \<not> is_tab_or_newline c))"

text \<open>The text of a URL object after its tuple list has been replaced by \<open>tuples\<close>.\<close>

definition url_text :: "URL \<Rightarrow> (string \<times> string) list \<Rightarrow> string" where
  "url_text u tuples = toString (update_query tuples u)"

text \<open>What \<^verbatim>\<open>parseSection\<close> returns when it does not locate the section.\<close>

definition fallback_section :: "string \<Rightarrow> managed_section" where
  "fallback_section content =
     \<lparr>before = (if trimEnd content \<noteq> [] then trimEnd content @ [LF, LF] else []),
      after = [LF], links = []\<rparr>"

text \<open>The text between the markers in a rendered section: every line after a newline,
  and a newline at the end.\<close>

definition section_body :: "link list \<Rightarrow> string" where
  "section_body ls = concat (map (\<lambda>l. LF # render_line l) ls) @ [LF]"

text \<open>No line terminator begins anywhere in the string.\<close>

fun no_line_terminator :: "string \<Rightarrow> bool" where
  "no_line_terminator [] = True"
| "no_line_terminator (c # cs) = (\<not> lt_prefix (c # cs) \<and> no_line_terminator cs)"

text \<open>The links that the specification calls well-formed: a title without square
  brackets and a date of the form \<^verbatim>\<open>YYYY-MM-DD\<close>.\<close>

definition wf_claimed :: "link \<Rightarrow> bool" where
  "wf_claimed l =
     (CHR ''['' \<notin> set (title l) \<and> CHR '']'' \<notin> set (title l) \<and> is_date (date l))"

text \<open>The links that survive rendering and parsing: in addition, the title is not empty
  and holds no line terminator, the URL is not empty and holds no closing parenthesis,
  and neither holds the end marker.\<close>

definition wf_link :: "link \<Rightarrow> bool" where
  "wf_link l =
     (title l \<noteq> [] \<and> CHR ''['' \<notin> set (title l) \<and> CHR '']'' \<notin> set (title l)
      \<and> no_line_terminator (title l) \<and> indexOf (title l) MARKER_END = None
      \<and> url l \<noteq> [] \<and> CHR '')'' \<notin> set (url l) \<and> indexOf (url l) MARKER_END = None
      \<and> is_date (date l))"

section \<open>Example data\<close>

definition example_link :: "string \<Rightarrow> link" where
  "example_link t = \<lparr>title = t, url = ''https://x.com/'' @ t, date = ''2025-06-01''\<rparr>"

text \<open>
  An example of a parser of the text before the query. It knows the \<^verbatim>\<open>https\<close> URLs
  whose host consists of non-empty labels of lower-case letters separated by dots and
  whose path consists of letters, digits, \<^verbatim>\<open>/\<close>, \<^verbatim>\<open>_\<close> and \<^verbatim>\<open>-\<close>. On these it does
  what the standard does: they are kept as they are, except that an empty path becomes
  \<^verbatim>\<open>/\<close>. It rejects everything else.
\<close>

definition is_plain_host :: "string \<Rightarrow> bool" where
  "is_plain_host host =
     (list_all (\<lambda>c. c \<in> set ''abcdefghijklmnopqrstuvwxyz.'') host
      \<and> [] \<notin> set (split_on (CHR ''.'') host))"

definition is_plain_path :: "string \<Rightarrow> bool" where
  "is_plain_path path = list_all (\<lambda>c. is_alnum c \<or> c \<in> set ''/_-'') path"

definition example_head :: head_parser where
  "example_head h =
     (let r = drop 8 h;
          host = takeWhile (\<lambda>c. c \<noteq> CHR ''/'') r;
          path = dropWhile (\<lambda>c. c \<noteq> CHR ''/'') r
      in if prefix ''https://'' h \<and> is_plain_host host \<and> is_plain_path path
         then Some (''https://'' @ host @ (if path = [] then ''/'' else path))
         else None)"

text \<open>An output file with one link, and a run whose only feed delivers that link again.\<close>

definition example_file :: string where
  "example_file =
     ''# RSS Links'' @ [LF, LF] @ MARKER_START @ [LF]
       @ ''- [Post](https://x.com/a?utm_source=github&utm_medium=o&utm_campaign=r) - 2025-05-01''
       @ [LF] @ MARKER_END @ [LF]"

definition example_world :: world where
  "example_world =
     \<lparr>env = map_of [(''INPUT_RSS_URLS'', ''https://f.example/feed''),
                     (''INPUT_GITHUB_TOKEN'', ''t0ken'')],
      url_head = example_head,
      fetch = map_of [(''https://f.example/feed'',
                 [\<lparr>item_title = Some ''Post'', item_link = Some ''https://x.com/a'',
                   item_guid = None, item_pubDate = None\<rparr>])],
      isoDate = (\<lambda>p. None),
      today = ''2025-06-01'',
      timestamp = ''2025-06-01T06:00:00.000Z'',
      repo_owner = ''o'',
      repo_name = ''r'',
      file_content = Some example_file,
      pr_html_url = ''https://github.com/o/r/pull/1''\<rparr>"

definition example_inputs :: inputs where
  "example_inputs =
     \<lparr>rssUrlsRaw = ''https://f.example/feed'', maxLinks = Num 10, outputFile = ''links.md'',
      token = ''t0ken'', branchPfx = ''rss-update'', baseBranch = ''main''\<rparr>"

text \<open>Links with a title without brackets and a proper date that do not survive
  rendering and parsing.\<close>

definition untitled_link :: link where
  "untitled_link = \<lparr>title = [], url = ''https://x.com/b'', date = ''2025-06-01''\<rparr>"

definition paren_link :: link where
  "paren_link =
     \<lparr>title = ''Rust'', url = ''https://en.wikipedia.org/wiki/Rust_(language)'',
      date = ''2025-06-01''\<rparr>"

definition two_line_link :: link where
  "two_line_link =
     \<lparr>title = ''a'' @ [LF] @ ''b'', url = ''https://x.com/c'', date = ''2025-06-01''\<rparr>"

definition no_url_link :: link where
  "no_url_link = \<lparr>title = ''Post'', url = [], date = ''2025-06-01''\<rparr>"

definition marker_link :: link where
  "marker_link =
     \<lparr>title = ''Post'', url = ''https://x.com/d#'' @ MARKER_END, date = ''2025-06-01''\<rparr>"

text \<open>A document in which an end marker precedes a complete section.\<close>

definition end_first_doc :: string where
  "end_first_doc =
     MARKER_END @ ''x'' @ MARKER_START @ [LF] @ ''- [A](https://x.com/A) - 2025-06-01'' @ [LF]
       @ MARKER_END"

section \<open>Proof setup\<close>

text \<open>The equations of the functions defined by general recursion are unfolded by hand.\<close>

declare strip_leading.simps [simp del]
declare collapse_ws.simps [simp del]
declare links_loop.simps [simp del]
declare decimal.simps [simp del]
declare split_runs.simps [simp del]
declare utf8_lossy.simps [simp del]

section \<open>Properties of rendering\<close>

lemma join_LF_concat:
  "xs \<noteq> [] \<Longrightarrow> join [LF] xs @ [LF] = concat (map (\<lambda>x. x @ [LF]) xs)"
  by (induction xs rule: join.induct[where ?a0.0="[LF]"]) auto

text \<open>
  Claim C3, as amended. The empty list is rendered as the start marker, one newline and
  the end marker: the two marker lines follow each other, and the text between the
  markers is the newline alone. A non-empty list is rendered as the start marker, a
  newline, the lines \<^verbatim>\<open>- [title](url) - date\<close> joined with newlines, a newline and
  the end marker. In both cases this is the start marker on a line of its own, then one
  line per record, then the end marker.
\<close>

theorem renderSection_layout:
  "renderSection [] = ''<!-- rss-action:start -->'' @ [LF] @ ''<!-- rss-action:end -->'' \<and>
   (ls \<noteq> [] \<longrightarrow>
      renderSection ls =
        ''<!-- rss-action:start -->'' @ [LF]
          @ join [LF] (map (\<lambda>l. ''- ['' @ title l @ '']('' @ url l @ '') - '' @ date l) ls)
          @ [LF] @ ''<!-- rss-action:end -->'') \<and>
   renderSection ls =
     ''<!-- rss-action:start -->'' @ [LF]
       @ concat (map (\<lambda>l. ''- ['' @ title l @ '']('' @ url l @ '') - '' @ date l @ [LF]) ls)
       @ ''<!-- rss-action:end -->''"
proof -
  have line: "render_line = (\<lambda>l. ''- ['' @ title l @ '']('' @ url l @ '') - '' @ date l)"
    by (rule ext) (simp add: render_line_def)
  have e: "renderSection [] = ''<!-- rss-action:start -->'' @ [LF] @ ''<!-- rss-action:end -->''"
    by (simp add: renderSection_def MARKER_START_def MARKER_END_def)
  have n: "renderSection ls =
        ''<!-- rss-action:start -->'' @ [LF]
          @ join [LF] (map (\<lambda>l. ''- ['' @ title l @ '']('' @ url l @ '') - '' @ date l) ls)
          @ [LF] @ ''<!-- rss-action:end -->''" if "ls \<noteq> []"
    using that by (simp add: renderSection_def MARKER_START_def MARKER_END_def line)
  have c: "renderSection ls =
     ''<!-- rss-action:start -->'' @ [LF]
       @ concat (map (\<lambda>l. ''- ['' @ title l @ '']('' @ url l @ '') - '' @ date l @ [LF]) ls)
       @ ''<!-- rss-action:end -->''"
  proof (cases "ls = []")
    case True
    then show ?thesis using e by simp
  next
    case False
    then have "map render_line ls \<noteq> []" by simp
    from join_LF_concat [OF this] n [OF False] show ?thesis
      by (simp add: line comp_def)
  qed
  from e n c show ?thesis by blast
qed

theorem renderSection_layout_witness:
  "renderSection
     [\<lparr>title = ''Post'', url = ''https://x.com/a'', date = ''2025-06-01''\<rparr>,
      \<lparr>title = ''Other'', url = ''https://x.com/b'', date = ''2025-05-28''\<rparr>] =
   ''<!-- rss-action:start -->'' @ [LF]
     @ ''- [Post](https://x.com/a) - 2025-06-01'' @ [LF]
     @ ''- [Other](https://x.com/b) - 2025-05-28'' @ [LF]
     @ ''<!-- rss-action:end -->''"
  using renderSection_layout
    [of "[\<lparr>title = ''Post'', url = ''https://x.com/a'', date = ''2025-06-01''\<rparr>,
          \<lparr>title = ''Other'', url = ''https://x.com/b'', date = ''2025-05-28''\<rparr>]"]
  by simp

text \<open>
  Claim C3 as stated fails for the empty list: the rendered text consists of the two
  marker lines and nothing else, so there is no blank line between them.
\<close>

theorem renderSection_empty_counterexample:
  "renderSection [] = ''<!-- rss-action:start -->'' @ [LF] @ ''<!-- rss-action:end -->'' \<and>
   split_on LF (renderSection [])
     = [''<!-- rss-action:start -->'', ''<!-- rss-action:end -->''] \<and>
   renderSection []
     \<noteq> ''<!-- rss-action:start -->'' @ [LF] @ [] @ [LF] @ ''<!-- rss-action:end -->''"
proof -
  have 1: "renderSection [] = ''<!-- rss-action:start -->'' @ [LF] @ ''<!-- rss-action:end -->''"
    by code_simp
  have 2: "split_on LF (renderSection [])
     = [''<!-- rss-action:start -->'', ''<!-- rss-action:end -->'']"
    by code_simp
  have 3: "renderSection []
     \<noteq> ''<!-- rss-action:start -->'' @ [LF] @ [] @ [LF] @ ''<!-- rss-action:end -->''"
    by code_simp
  from 1 2 3 show ?thesis by blast
qed

section \<open>The URL functions\<close>

lemma utf8_conts_full:
  "utf8_conts n lo hi bs = n \<Longrightarrow>
     n \<le> length bs \<and> utf8_conts n lo hi (take n bs @ t) = n"
proof (induction n lo hi bs rule: utf8_conts.induct)
  case (1 lo hi bs)
  then show ?case by simp
next
  case (2 n lo hi)
  then show ?case by simp
next
  case (3 n lo hi c cs)
  then show ?case by (simp split: if_splits)
qed

lemma utf8_lossy_ascii_byte:
  "(of_char b :: nat) < 0x80 \<Longrightarrow> utf8_lossy (b # t) = b # utf8_lossy t"
  by (simp add: utf8_lossy.simps)

lemma utf8_lossy_chunk:
  assumes "\<not> (of_char b :: nat) < 0x80" and "utf8_lead b = Some (n, lo, hi)"
    and "utf8_conts n lo hi bs = n"
  shows "utf8_lossy ((b # take n bs) @ t) = (b # take n bs) @ utf8_lossy t"
proof -
  from utf8_conts_full [OF assms(3), of t]
  have n: "n \<le> length bs" and c: "utf8_conts n lo hi (take n bs @ t) = n"
    by simp_all
  show ?thesis
    using assms(1,2) c n by (simp add: utf8_lossy.simps)
qed

lemma utf8_lossy_REPLACEMENT: "utf8_lossy (REPLACEMENT @ t) = REPLACEMENT @ utf8_lossy t"
proof -
  have l: "utf8_lead (CHR 0xEF) = Some (2, 0x80, 0xBF)"
    by (simp add: utf8_lead_def)
  have c: "utf8_conts 2 0x80 0xBF ([CHR 0xBF, CHR 0xBD] @ t) = 2"
    by (simp add: numeral_2_eq_2)
  have "utf8_lossy ((CHR 0xEF # take 2 ([CHR 0xBF, CHR 0xBD] @ t)) @ t)
          = (CHR 0xEF # take 2 ([CHR 0xBF, CHR 0xBD] @ t)) @ utf8_lossy t"
    by (rule utf8_lossy_chunk [OF _ l c]) simp
  then show ?thesis
    by (simp add: REPLACEMENT_def)
qed

text \<open>Decoding what has been decoded changes nothing.\<close>

lemma utf8_lossy_idem: "utf8_lossy (utf8_lossy s) = utf8_lossy s"
proof (induction s rule: utf8_lossy.induct)
  case 1
  show ?case by (simp add: utf8_lossy.simps)
next
  case (2 b bs)
  show ?case
  proof (cases "(of_char b :: nat) < 0x80")
    case True
    with 2 show ?thesis
      by (simp add: utf8_lossy.simps)
  next
    case False
    show ?thesis
    proof (cases "utf8_lead b")
      case None
      with False 2 show ?thesis
        by (simp add: utf8_lossy.simps(2) [of b bs] utf8_lossy_REPLACEMENT)
    next
      case (Some t)
      obtain n lo hi where t: "t = (n, lo, hi)" by (cases t)
      show ?thesis
      proof (cases "utf8_conts n lo hi bs = n")
        case True
        have "utf8_lossy (b # bs) = (b # take n bs) @ utf8_lossy (drop n bs)"
          using False Some t True by (simp add: utf8_lossy.simps(2) [of b bs])
        moreover have "utf8_lossy (utf8_lossy (drop n bs)) = utf8_lossy (drop n bs)"
          using 2(3) [OF False Some [unfolded t] refl refl] True by simp
        ultimately show ?thesis
          using utf8_lossy_chunk [OF False Some [unfolded t] True] by simp
      next
        case no: False
        have "utf8_lossy (b # bs) = REPLACEMENT @ utf8_lossy (drop (utf8_conts n lo hi bs) bs)"
          using False Some t no by (simp add: utf8_lossy.simps(2) [of b bs])
        moreover have "utf8_lossy (utf8_lossy (drop (utf8_conts n lo hi bs) bs))
                         = utf8_lossy (drop (utf8_conts n lo hi bs) bs)"
          using 2(4) [OF False Some [unfolded t] refl refl] no by simp
        ultimately show ?thesis
          by (simp add: utf8_lossy_REPLACEMENT)
      qed
    qed
  qed
qed

lemma utf8_lossy_ascii: "\<forall>c \<in> set s. (of_char c :: nat) < 0x80 \<Longrightarrow> utf8_lossy s = s"
  by (induction s) (simp_all add: utf8_lossy.simps)


lemma hex_char_table:
  "list_all (\<lambda>n. is_hex (hex_char n) \<and> hex_val (hex_char n) = n
      \<and> hex_char n \<noteq> CHR ''+'' \<and> hex_char n \<noteq> CHR ''%'' \<and> is_alnum (hex_char n)) [0..<16]"
  by code_simp

lemma hex_char_ok:
  assumes "n < 16"
  shows "is_hex (hex_char n)" and "hex_val (hex_char n) = n"
    and "hex_char n \<noteq> CHR ''+''" and "hex_char n \<noteq> CHR ''%''" and "is_alnum (hex_char n)"
proof -
  from assms have "n \<in> set [0..<16]" by simp
  with hex_char_table
  have "is_hex (hex_char n) \<and> hex_val (hex_char n) = n
      \<and> hex_char n \<noteq> CHR ''+'' \<and> hex_char n \<noteq> CHR ''%'' \<and> is_alnum (hex_char n)"
    unfolding list_all_iff by blast
  then show "is_hex (hex_char n)" and "hex_val (hex_char n) = n"
    and "hex_char n \<noteq> CHR ''+''" and "hex_char n \<noteq> CHR ''%''" and "is_alnum (hex_char n)"
    by simp_all
qed

lemma of_char_div_16: "(of_char c :: nat) div 16 < 16"
proof -
  have "(of_char c :: nat) < 256" by simp
  then show ?thesis by linarith
qed

lemma percent_decode_encode_byte:
  "percent_decode (percent_encode_byte c @ rest) = c # percent_decode rest"
proof -
  have a: "(of_char c :: nat) div 16 < 16" by (rule of_char_div_16)
  have b: "(of_char c :: nat) mod 16 < 16" by simp
  have "char_of (16 * ((of_char c :: nat) div 16) + of_char c mod 16) = c"
    by simp
  then show ?thesis
    by (simp add: percent_encode_byte_def hex_char_ok [OF a] hex_char_ok [OF b])
qed

lemma percent_decode_plain:
  "c \<noteq> CHR ''%'' \<Longrightarrow> percent_decode (c # xs) = c # percent_decode xs"
  by (cases xs rule: percent_decode.cases) auto

lemma alnum_not_special:
  assumes "is_alnum c"
  shows "c \<noteq> CHR ''+''" and "c \<noteq> CHR ''%''" and "c \<noteq> CHR ''&''" and "c \<noteq> CHR ''=''"
    and "c \<noteq> CHR ''#''" and "c \<noteq> CHR ''?''" and "\<not> is_c0_or_space c"
    and "\<not> is_tab_or_newline c"
  using assms
  by (auto simp: is_alnum_def is_alpha_def is_digit_def is_c0_or_space_def is_tab_or_newline_def)

text \<open>The characters that the urlencoded serialiser writes.\<close>

lemma urlencode_byte_chars:
  "x \<in> set (urlencode_byte c) \<Longrightarrow> is_alnum x \<or> x \<in> set ''*-._+%''"
  using hex_char_ok(5) [OF of_char_div_16 [of c]] hex_char_ok(5) [of "of_char c mod 16"]
  by (auto simp: urlencode_byte_def percent_encode_byte_def split: if_splits)

lemma urlencode_chars:
  "x \<in> set (urlencode s) \<Longrightarrow> is_alnum x \<or> x \<in> set ''*-._+%''"
  by (auto simp: urlencode_def dest: urlencode_byte_chars)

lemma urlencode_no_special:
  assumes "x \<in> set (urlencode s)"
  shows "x \<noteq> CHR ''&''" and "x \<noteq> CHR ''=''" and "x \<noteq> CHR ''#''" and "x \<noteq> CHR ''?''"
    and "\<not> is_c0_or_space x" and "\<not> is_tab_or_newline x"
  using urlencode_chars [OF assms] alnum_not_special [of x]
  by (auto simp: is_c0_or_space_def is_tab_or_newline_def)

lemma plus_to_space_append: "plus_to_space (a @ b) = plus_to_space a @ plus_to_space b"
  by (simp add: plus_to_space_def)

lemma decode_urlencode_byte:
  "percent_decode (plus_to_space (urlencode_byte c) @ rest) = c # percent_decode rest"
proof (cases "c = SP")
  case True
  then show ?thesis
    by (simp add: urlencode_byte_def plus_to_space_def percent_decode_plain)
next
  case False
  show ?thesis
  proof (cases "is_alnum c \<or> c \<in> set ''*-._''")
    case True
    then have "c \<noteq> CHR ''+''" "c \<noteq> CHR ''%''"
      using alnum_not_special(1,2) [of c] by auto
    with True False show ?thesis
      by (simp add: urlencode_byte_def plus_to_space_def percent_decode_plain)
  next
    case no: False
    have "plus_to_space (percent_encode_byte c) = percent_encode_byte c"
      using hex_char_ok(3) [OF of_char_div_16 [of c]] hex_char_ok(3) [of "of_char c mod 16"]
      by (simp add: plus_to_space_def percent_encode_byte_def)
    with no False show ?thesis
      by (simp add: urlencode_byte_def percent_decode_encode_byte)
  qed
qed

lemma decode_urlencode: "percent_decode (plus_to_space (urlencode s)) = s"
proof (induction s)
  case Nil
  show ?case by (simp add: urlencode_def plus_to_space_def)
next
  case (Cons c s)
  have "urlencode (c # s) = urlencode_byte c @ urlencode s"
    by (simp add: urlencode_def)
  then show ?case
    using decode_urlencode_byte [of c "plus_to_space (urlencode s)"] Cons.IH
    by (simp add: plus_to_space_append)
qed


lemma takeWhile_stop:
  "\<forall>x \<in> set a. P x \<Longrightarrow> \<not> P c \<Longrightarrow> takeWhile P (a @ c # r) = a"
  by (induction a) auto

lemma dropWhile_stop:
  "\<forall>x \<in> set a. P x \<Longrightarrow> \<not> P c \<Longrightarrow> dropWhile P (a @ c # r) = c # r"
  by (induction a) auto

lemma takeWhile_all: "\<forall>x \<in> set a. P x \<Longrightarrow> takeWhile P a = a"
  by (induction a) auto

lemma dropWhile_all: "\<forall>x \<in> set a. P x \<Longrightarrow> dropWhile P a = []"
  by (induction a) auto

text \<open>One serialised tuple is parsed back to the tuple.\<close>

lemma parse_pair_tuple_text:
  "parse_pair (tuple_text t) = (utf8_lossy (fst t), utf8_lossy (snd t))"
proof -
  have n: "\<forall>x \<in> set (urlencode (fst t)). x \<noteq> CHR ''=''"
    using urlencode_no_special(2) by blast
  have "takeWhile (\<lambda>c. c \<noteq> CHR ''='') (urlencode (fst t) @ CHR ''='' # urlencode (snd t))
          = urlencode (fst t)"
    using n by (intro takeWhile_stop) auto
  moreover
  have "dropWhile (\<lambda>c. c \<noteq> CHR ''='') (urlencode (fst t) @ CHR ''='' # urlencode (snd t))
          = CHR ''='' # urlencode (snd t)"
    using n by (intro dropWhile_stop) auto
  ultimately show ?thesis
    by (simp add: parse_pair_def tuple_text_def decode_urlencode)
qed

lemma tuple_text_no_amp: "CHR ''&'' \<notin> set (tuple_text t)"
  using urlencode_no_special(1) by (auto simp: tuple_text_def)

lemma tuple_text_nonempty: "tuple_text t \<noteq> []"
  by (simp add: tuple_text_def)

lemma split_on_no_sep: "sep \<notin> set p \<Longrightarrow> split_on sep p = [p]"
  by (induction p) auto

lemma split_on_append:
  "sep \<notin> set p \<Longrightarrow> split_on sep (p @ sep # r) = p # split_on sep r"
  by (induction p) auto

lemma join_Cons: "ps \<noteq> [] \<Longrightarrow> join sep (p # ps) = p @ sep @ join sep ps"
  by (cases ps) simp_all

lemma split_on_join:
  "ps \<noteq> [] \<Longrightarrow> \<forall>p \<in> set ps. sep \<notin> set p \<Longrightarrow> split_on sep (join [sep] ps) = ps"
proof (induction ps)
  case Nil
  then show ?case by simp
next
  case (Cons p ps)
  show ?case
  proof (cases "ps = []")
    case True
    with Cons.prems show ?thesis by (simp add: split_on_no_sep)
  next
    case False
    with Cons show ?thesis by (simp add: join_Cons split_on_append)
  qed
qed

lemma serialize_urlencoded_alt:
  "serialize_urlencoded tuples = join ''&'' (map tuple_text tuples)"
  by (simp add: serialize_urlencoded_def)

text \<open>A tuple whose name and value are strings of scalar values.\<close>

lemma parse_pair_clean:
  "utf8_lossy (fst (parse_pair b)) = fst (parse_pair b)
     \<and> utf8_lossy (snd (parse_pair b)) = snd (parse_pair b)"
  by (simp add: parse_pair_def Let_def utf8_lossy_idem)

lemma parse_urlencoded_clean:
  "t \<in> set (parse_urlencoded q) \<Longrightarrow> utf8_lossy (fst t) = fst t \<and> utf8_lossy (snd t) = snd t"
  using parse_pair_clean by (auto simp: parse_urlencoded_def)

lemma parse_serialize_urlencoded:
  assumes "\<forall>t \<in> set tuples. utf8_lossy (fst t) = fst t \<and> utf8_lossy (snd t) = snd t"
  shows "parse_urlencoded (serialize_urlencoded tuples) = tuples"
proof (cases "tuples = []")
  case True
  then show ?thesis
    by (simp add: serialize_urlencoded_def parse_urlencoded_def)
next
  case False
  then have "split_on (CHR ''&'') (join ''&'' (map tuple_text tuples)) = map tuple_text tuples"
    using tuple_text_no_amp by (intro split_on_join) auto
  moreover have "filter (\<lambda>b. b \<noteq> []) (map tuple_text tuples) = map tuple_text tuples"
    using tuple_text_nonempty by (simp add: filter_id_conv)
  moreover have "map (\<lambda>t. (utf8_lossy (fst t), utf8_lossy (snd t))) tuples = tuples"
    using assms by (intro map_idI) simp
  ultimately show ?thesis
    by (simp add: parse_urlencoded_def serialize_urlencoded_alt parse_pair_tuple_text comp_def)
qed

lemma join_chars:
  "x \<in> set (join sep ps) \<Longrightarrow> x \<in> set sep \<or> (\<exists>p \<in> set ps. x \<in> set p)"
proof (induction ps)
  case Nil
  then show ?case by simp
next
  case (Cons p ps)
  then show ?case by (cases "ps = []") (auto simp: join_Cons)
qed

lemma join_nonempty: "ps \<noteq> [] \<Longrightarrow> hd ps \<noteq> [] \<Longrightarrow> join sep ps \<noteq> []"
  by (cases ps; cases "tl ps") auto

text \<open>The characters of a serialised query.\<close>

lemma serialize_urlencoded_chars:
  assumes "x \<in> set (serialize_urlencoded tuples)"
  shows "x \<noteq> CHR ''#''" and "x \<noteq> CHR ''?''" and "\<not> is_c0_or_space x"
    and "\<not> is_tab_or_newline x"
proof -
  from join_chars [OF assms [unfolded serialize_urlencoded_alt]]
  consider "x = CHR ''&''" | t where "x \<in> set (tuple_text t)"
    by auto
  then have "x \<noteq> CHR ''#'' \<and> x \<noteq> CHR ''?'' \<and> \<not> is_c0_or_space x \<and> \<not> is_tab_or_newline x"
  proof cases
    case 1
    then show ?thesis by (simp add: is_c0_or_space_def is_tab_or_newline_def)
  next
    case 2
    then consider "x \<in> set (urlencode (fst t))" | "x = CHR ''=''" | "x \<in> set (urlencode (snd t))"
      by (auto simp: tuple_text_def)
    then show ?thesis
    proof cases
      case 2
      then show ?thesis by (simp add: is_c0_or_space_def is_tab_or_newline_def)
    qed (use urlencode_no_special in blast)+
  qed
  then show "x \<noteq> CHR ''#''" and "x \<noteq> CHR ''?''" and "\<not> is_c0_or_space x"
    and "\<not> is_tab_or_newline x"
    by simp_all
qed

lemma serialize_urlencoded_nonempty: "tuples \<noteq> [] \<Longrightarrow> serialize_urlencoded tuples \<noteq> []"
  unfolding serialize_urlencoded_alt
  by (rule join_nonempty) (simp_all add: tuple_text_nonempty hd_map)


lemma filter_set_tuple:
  "name \<in> K \<Longrightarrow>
     filter (\<lambda>(k, v). k \<notin> K) (set_tuple name val tuples) = filter (\<lambda>(k, v). k \<notin> K) tuples"
proof (induction tuples)
  case Nil
  then show ?case by simp
next
  case (Cons t tuples)
  obtain k v where t: "t = (k, v)" by (cases t)
  have "filter (\<lambda>(k, v). k \<notin> K) (filter (\<lambda>(k', v'). k' \<noteq> name) tuples)
          = filter (\<lambda>(k, v). k \<notin> K) tuples"
    using Cons.prems by (auto intro!: filter_cong)
  with Cons t show ?case by simp
qed

lemma set_tuple_clean:
  assumes "\<forall>t \<in> set tuples. utf8_lossy (fst t) = fst t \<and> utf8_lossy (snd t) = snd t"
    and "utf8_lossy name = name" and "utf8_lossy val = val"
  shows "\<forall>t \<in> set (set_tuple name val tuples).
           utf8_lossy (fst t) = fst t \<and> utf8_lossy (snd t) = snd t"
  using assms(1)
proof (induction tuples)
  case Nil
  then show ?case using assms(2,3) by simp
next
  case (Cons t tuples)
  obtain k v where t: "t = (k, v)" by (cases t)
  with Cons assms(2,3) show ?case by auto
qed

lemma set_tuple_nonempty: "set_tuple name val tuples \<noteq> []"
  by (cases tuples) (auto split: if_splits)

lemma utm_names_clean:
  "utf8_lossy ''utm_source'' = ''utm_source''" "utf8_lossy ''utm_medium'' = ''utm_medium''"
  "utf8_lossy ''utm_campaign'' = ''utm_campaign''" "utf8_lossy ''github'' = ''github''"
  by (rule utf8_lossy_ascii, simp)+

lemma delete_thrice:
  "filter (\<lambda>(k, v). k \<noteq> ''utm_campaign'')
     (filter (\<lambda>(k, v). k \<noteq> ''utm_medium'') (filter (\<lambda>(k, v). k \<noteq> ''utm_source'') tuples))
   = filter (\<lambda>(k, v). k \<notin> utm_keys) tuples"
  by (auto simp: utm_keys_def intro!: filter_cong)

lemma url_text_eq:
  "url_text u tuples =
     head u
       @ (if serialize_urlencoded tuples = [] then [] else CHR ''?'' # serialize_urlencoded tuples)
       @ (case fragment u of None \<Rightarrow> [] | Some f \<Rightarrow> CHR ''#'' # f)"
  by (simp add: url_text_def toString_def update_query_def Let_def)

text \<open>What the two functions return on a string that parses.\<close>

lemma stripUTM_parsed:
  "new_URL P s = Some u \<Longrightarrow>
     stripUTM P s = url_text u (filter (\<lambda>(k, v). k \<notin> utm_keys) (searchParams u))"
  by (simp del: filter_filter
      add: stripUTM_def searchParams_delete_def update_query_def toString_def url_text_eq
        delete_thrice utm_names_clean Let_def)

lemma addUTM_parsed:
  "new_URL P s = Some u \<Longrightarrow>
     addUTM P s owner repo = url_text u (utm_set owner repo (searchParams u))"
  by (simp add: addUTM_def searchParams_set_def update_query_def toString_def url_text_eq
      utm_set_def utm_names_clean Let_def)

lemma filter_utm_set:
  "filter (\<lambda>(k, v). k \<notin> utm_keys) (utm_set owner repo tuples)
     = filter (\<lambda>(k, v). k \<notin> utm_keys) tuples"
proof -
  have "''utm_source'' \<in> utm_keys" "''utm_medium'' \<in> utm_keys" "''utm_campaign'' \<in> utm_keys"
    by (simp_all add: utm_keys_def)
  then show ?thesis
    by (simp add: utm_set_def filter_set_tuple [where K = utm_keys])
qed

lemma utm_set_nonempty: "utm_set owner repo tuples \<noteq> []"
  by (simp add: utm_set_def set_tuple_nonempty)

lemma utm_set_clean:
  assumes "\<forall>t \<in> set tuples. utf8_lossy (fst t) = fst t \<and> utf8_lossy (snd t) = snd t"
  shows "\<forall>t \<in> set (utm_set owner repo tuples).
           utf8_lossy (fst t) = fst t \<and> utf8_lossy (snd t) = snd t"
  unfolding utm_set_def
  by (intro set_tuple_clean assms) (simp_all add: utm_names_clean utf8_lossy_idem)

lemma alnum_fragment_safe: "is_alnum x \<Longrightarrow> encode_fragment_byte x = [x]"
  by (auto simp: is_alnum_def is_alpha_def is_digit_def encode_fragment_byte_def)

lemma tab_or_newline_c0: "is_tab_or_newline x \<Longrightarrow> is_c0_or_space x"
  unfolding is_tab_or_newline_def is_c0_or_space_def
  by (elim disjE) simp_all

lemma fragment_safe_not_c0: "encode_fragment_byte x = [x] \<Longrightarrow> \<not> is_c0_or_space x"
  unfolding encode_fragment_byte_def is_c0_or_space_def percent_encode_byte_def
  by (simp split: if_splits)

lemma percent_fragment_safe: "encode_fragment_byte (CHR ''%'') = ''%''"
  by (simp add: encode_fragment_byte_def)

lemma encode_fragment_byte_chars:
  assumes "x \<in> set (encode_fragment_byte c)"
  shows "encode_fragment_byte x = [x]"
proof (cases "encode_fragment_byte c = [c]")
  case True
  with assms show ?thesis by simp
next
  case False
  then have "encode_fragment_byte c = percent_encode_byte c"
    by (simp add: encode_fragment_byte_def split: if_splits)
  with assms have "x = CHR ''%'' \<or> x = hex_char (of_char c div 16) \<or> x = hex_char (of_char c mod 16)"
    by (simp add: percent_encode_byte_def)
  then show ?thesis
    using hex_char_ok(5) [OF of_char_div_16 [of c]] hex_char_ok(5) [of "of_char c mod 16"]
      alnum_fragment_safe percent_fragment_safe
    by (elim disjE) simp_all
qed


lemma encode_fragment_chars:
  assumes "x \<in> set (encode_fragment f)"
  shows "encode_fragment_byte x = [x]" and "\<not> is_c0_or_space x" and "\<not> is_tab_or_newline x"
proof -
  from assms obtain c where "x \<in> set (encode_fragment_byte c)"
    by (auto simp: encode_fragment_def)
  then show "encode_fragment_byte x = [x]"
    by (rule encode_fragment_byte_chars)
  then show "\<not> is_c0_or_space x"
    by (rule fragment_safe_not_c0)
  then show "\<not> is_tab_or_newline x"
    using tab_or_newline_c0 by blast
qed

lemma concat_map_single: "\<forall>x \<in> set xs. g x = [x] \<Longrightarrow> concat (map g xs) = xs"
  by (induction xs) auto

text \<open>Percent-encoding a fragment a second time changes nothing.\<close>

lemma encode_fragment_idem: "encode_fragment (encode_fragment f) = encode_fragment f"
  using encode_fragment_chars(1) [of _ f]
  by (simp add: encode_fragment_def [of "encode_fragment f"] concat_map_single)

lemma new_URL_facts:
  assumes "head_laws P" and "new_URL P s = Some u"
  shows "P (head u) = Some (head u)" and "head u \<noteq> []" and "\<not> is_c0_or_space (hd (head u))"
    and "\<forall>c \<in> set (head u). c \<noteq> CHR ''?'' \<and> c \<noteq> CHR ''#'' \<and> \<not> is_tab_or_newline c"
    and "map_option encode_fragment (fragment u) = fragment u"
    and "\<forall>t \<in> set (searchParams u). utf8_lossy (fst t) = fst t \<and> utf8_lossy (snd t) = snd t"
proof -
  define p where "p = url_preprocess s"
  define h where "h = takeWhile (\<lambda>c. c \<noteq> CHR ''?'') (takeWhile (\<lambda>c. c \<noteq> CHR ''#'') p)"
  have hp: "P h = Some (head u)"
    and fr: "fragment u = map_option encode_fragment
               (case dropWhile (\<lambda>c. c \<noteq> CHR ''#'') p of [] \<Rightarrow> None | _ # r \<Rightarrow> Some r)"
    and sp: "\<exists>q. searchParams u = (case q of None \<Rightarrow> [] | Some qs \<Rightarrow> parse_urlencoded qs)"
    using assms(2)
    by (auto simp: new_URL_def split_first_def Let_def p_def h_def split: option.splits)
  from assms(1) hp
  have l: "P (head u) = Some (head u) \<and> head u \<noteq> [] \<and> \<not> is_c0_or_space (hd (head u))
      \<and> (\<forall>c \<in> set (head u). c \<noteq> CHR ''?'' \<and> c \<noteq> CHR ''#'' \<and> \<not> is_tab_or_newline c)"
    unfolding head_laws_def by blast
  then show "P (head u) = Some (head u)" and "head u \<noteq> []"
    and "\<not> is_c0_or_space (hd (head u))"
    and "\<forall>c \<in> set (head u). c \<noteq> CHR ''?'' \<and> c \<noteq> CHR ''#'' \<and> \<not> is_tab_or_newline c"
    by simp_all
  show "map_option encode_fragment (fragment u) = fragment u"
    unfolding fr by (simp add: encode_fragment_idem split: list.splits)
  from sp obtain q where "searchParams u = (case q of None \<Rightarrow> [] | Some qs \<Rightarrow> parse_urlencoded qs)"
    by blast
  then show "\<forall>t \<in> set (searchParams u). utf8_lossy (fst t) = fst t \<and> utf8_lossy (snd t) = snd t"
    using parse_urlencoded_clean by (cases q) auto
qed

lemma dropWhile_rev_last:
  "s \<noteq> [] \<Longrightarrow> \<not> P (last s) \<Longrightarrow> rev (dropWhile P (rev s)) = s"
  by (cases s rule: rev_cases) auto

lemma url_preprocess_id:
  assumes "s \<noteq> []" and "\<not> is_c0_or_space (hd s)" and "\<not> is_c0_or_space (last s)"
    and "\<forall>c \<in> set s. \<not> is_tab_or_newline c"
  shows "url_preprocess s = s"
proof -
  have "dropWhile is_c0_or_space s = s"
    using assms(1,2) by (cases s) auto
  then show ?thesis
    using assms by (simp add: url_preprocess_def dropWhile_rev_last filter_id_conv)
qed

text \<open>Parsing the text of a URL whose query has been written by the serialiser gives the
  same URL back.\<close>

lemma new_URL_url_text:
  assumes "head_laws P" and "new_URL P s = Some u" and "tuples \<noteq> []"
    and "\<forall>t \<in> set tuples. utf8_lossy (fst t) = fst t \<and> utf8_lossy (snd t) = snd t"
  shows "new_URL P (url_text u tuples)
           = Some (u\<lparr>searchParams := tuples, query := Some (serialize_urlencoded tuples)\<rparr>)"
proof -
  define q where "q = serialize_urlencoded tuples"
  define fp where "fp = (case fragment u of None \<Rightarrow> [] | Some f \<Rightarrow> CHR ''#'' # f)"
  note facts = new_URL_facts [OF assms(1,2)]
  have q_ne: "q \<noteq> []"
    using assms(3) by (simp add: q_def serialize_urlencoded_nonempty)
  have q_chars: "\<forall>x \<in> set q. x \<noteq> CHR ''#'' \<and> x \<noteq> CHR ''?'' \<and> \<not> is_c0_or_space x
      \<and> \<not> is_tab_or_newline x"
    using serialize_urlencoded_chars by (auto simp: q_def)
  have t: "url_text u tuples = head u @ CHR ''?'' # q @ fp"
    using q_ne by (simp add: url_text_eq q_def fp_def)
  have f_chars: "\<forall>x \<in> set f. \<not> is_c0_or_space x \<and> \<not> is_tab_or_newline x"
    if "fragment u = Some f" for f
  proof -
    from facts(5) that have "f = encode_fragment f" by simp
    then show ?thesis
      using encode_fragment_chars(2,3) [of _ f] by metis
  qed
  have hash_ok: "\<not> is_c0_or_space (CHR ''#'')" "\<not> is_tab_or_newline (CHR ''#'')"
    "\<not> is_tab_or_newline (CHR ''?'')"
    by (simp_all add: is_c0_or_space_def is_tab_or_newline_def)
  have last_ok: "\<not> is_c0_or_space (last (head u @ CHR ''?'' # q @ fp))"
  proof (cases "fragment u")
    case None
    then show ?thesis using q_ne q_chars by (simp add: fp_def)
  next
    case (Some f)
    then show ?thesis
      using f_chars [OF Some] hash_ok by (cases "f = []") (simp_all add: fp_def)
  qed
  have fp_chars: "\<forall>c \<in> set fp. \<not> is_tab_or_newline c"
  proof (cases "fragment u")
    case None
    then show ?thesis by (simp add: fp_def)
  next
    case (Some f)
    then show ?thesis
      using f_chars [OF Some] hash_ok by (simp add: fp_def)
  qed
  have nl_ok: "\<forall>c \<in> set (head u @ CHR ''?'' # q @ fp). \<not> is_tab_or_newline c"
    using facts(4) q_chars hash_ok(3) fp_chars by (simp add: ball_Un)
  have pre: "url_preprocess (head u @ CHR ''?'' # q @ fp) = head u @ CHR ''?'' # q @ fp"
    using facts(2,3) last_ok nl_ok
    by (intro url_preprocess_id) (simp_all add: hd_append)
  have no_hash: "\<forall>x \<in> set (head u @ CHR ''?'' # q). x \<noteq> CHR ''#''"
    using facts(4) q_chars by (simp add: ball_Un)
  have no_qm: "\<forall>x \<in> set (head u). x \<noteq> CHR ''?''"
    using facts(4) by simp
  have split1: "split_first (CHR ''#'') (head u @ CHR ''?'' # q @ fp)
                  = (head u @ CHR ''?'' # q, fragment u)"
  proof (cases "fragment u")
    case None
    then show ?thesis
      using no_hash by (simp add: split_first_def fp_def takeWhile_all dropWhile_all)
  next
    case (Some f)
    have "takeWhile (\<lambda>c. c \<noteq> CHR ''#'') ((head u @ CHR ''?'' # q) @ CHR ''#'' # f)
            = head u @ CHR ''?'' # q"
      using no_hash by (intro takeWhile_stop) simp_all
    moreover
    have "dropWhile (\<lambda>c. c \<noteq> CHR ''#'') ((head u @ CHR ''?'' # q) @ CHR ''#'' # f)
            = CHR ''#'' # f"
      using no_hash by (intro dropWhile_stop) simp_all
    ultimately show ?thesis
      using Some by (simp add: split_first_def fp_def)
  qed
  have split2: "split_first (CHR ''?'') (head u @ CHR ''?'' # q) = (head u, Some q)"
  proof -
    have "takeWhile (\<lambda>c. c \<noteq> CHR ''?'') (head u @ CHR ''?'' # q) = head u"
      using no_qm by (intro takeWhile_stop) simp_all
    moreover
    have "dropWhile (\<lambda>c. c \<noteq> CHR ''?'') (head u @ CHR ''?'' # q) = CHR ''?'' # q"
      using no_qm by (intro dropWhile_stop) simp_all
    ultimately show ?thesis by (simp add: split_first_def)
  qed
  have "new_URL P (head u @ CHR ''?'' # q @ fp)
          = Some \<lparr>head = head u, query = Some q, fragment = fragment u, searchParams = tuples\<rparr>"
    using facts(1,5) parse_serialize_urlencoded [OF assms(4), folded q_def]
    by (simp add: new_URL_def pre split1 split2)
  then show ?thesis
    unfolding t by (simp add: q_def)
qed

text \<open>Decorating and then stripping is stripping, and the decorated string parses to the
  URL whose tuples are the decorated ones.\<close>

lemma new_URL_addUTM:
  assumes "head_laws P" and "new_URL P s = Some u"
  shows "new_URL P (addUTM P s owner repo)
           = Some (u\<lparr>searchParams := utm_set owner repo (searchParams u),
                     query := Some (serialize_urlencoded (utm_set owner repo (searchParams u)))\<rparr>)"
  using new_URL_url_text [OF assms utm_set_nonempty
      utm_set_clean [OF new_URL_facts(6) [OF assms]]]
    addUTM_parsed [OF assms(2)]
  by simp

lemma strip_after_add:
  assumes "head_laws P" and "new_URL P s = Some u"
  shows "stripUTM P (addUTM P s owner repo) = stripUTM P s"
  using stripUTM_parsed [OF new_URL_addUTM [OF assms]]
  by (simp add: filter_utm_set stripUTM_parsed [OF assms(2)] url_text_eq)


lemma plain_host_chars:
  assumes "is_plain_host host" and "c \<in> set host"
  shows "c \<noteq> CHR ''/''" and "c \<noteq> CHR ''?''" and "c \<noteq> CHR ''#''" and "\<not> is_tab_or_newline c"
proof -
  from assms have "c \<in> set ''abcdefghijklmnopqrstuvwxyz.''"
    by (simp add: is_plain_host_def list_all_iff)
  then have "c \<noteq> CHR ''/'' \<and> c \<noteq> CHR ''?'' \<and> c \<noteq> CHR ''#'' \<and> \<not> is_tab_or_newline c"
    by (auto simp: is_tab_or_newline_def)
  then show "c \<noteq> CHR ''/''" and "c \<noteq> CHR ''?''" and "c \<noteq> CHR ''#''"
    and "\<not> is_tab_or_newline c"
    by simp_all
qed

lemma plain_path_chars:
  assumes "is_plain_path path" and "c \<in> set path"
  shows "c \<noteq> CHR ''?''" and "c \<noteq> CHR ''#''" and "\<not> is_tab_or_newline c"
proof -
  from assms have "is_alnum c \<or> c \<in> set ''/_-''"
    by (simp add: is_plain_path_def list_all_iff)
  then have "c \<noteq> CHR ''?'' \<and> c \<noteq> CHR ''#'' \<and> \<not> is_tab_or_newline c"
    using alnum_not_special(5,6,8) [of c] by (auto simp: is_tab_or_newline_def)
  then show "c \<noteq> CHR ''?''" and "c \<noteq> CHR ''#''" and "\<not> is_tab_or_newline c"
    by simp_all
qed

text \<open>The example parser has the two properties.\<close>

lemma example_head_laws: "head_laws example_head"
  unfolding head_laws_def
proof (intro allI impI)
  fix h h'
  assume a: "example_head h = Some h'"
  define host where "host = takeWhile (\<lambda>c. c \<noteq> CHR ''/'') (drop 8 h)"
  define path where "path = dropWhile (\<lambda>c. c \<noteq> CHR ''/'') (drop 8 h)"
  define path' where "path' = (if path = [] then ''/'' else path)"
  from a have ph: "is_plain_host host" and pp: "is_plain_path path"
    and h': "h' = ''https://'' @ host @ path'"
    by (auto simp: example_head_def Let_def host_def path_def path'_def split: if_splits)
  have "path \<noteq> [] \<Longrightarrow> hd path = CHR ''/''"
    using hd_dropWhile [of "\<lambda>c. c \<noteq> CHR ''/''" "drop 8 h"] by (simp add: path_def)
  then obtain r where r: "path' = CHR ''/'' # r"
    by (cases path) (auto simp: path'_def)
  have pp': "is_plain_path path'"
    using pp by (simp add: path'_def is_plain_path_def)
  have nh: "\<forall>x \<in> set host. x \<noteq> CHR ''/''"
    using plain_host_chars(1) [OF ph] by blast
  have tw: "takeWhile (\<lambda>c. c \<noteq> CHR ''/'') (host @ CHR ''/'' # r) = host"
    using nh by (intro takeWhile_stop) simp_all
  have dw: "dropWhile (\<lambda>c. c \<noteq> CHR ''/'') (host @ CHR ''/'' # r) = CHR ''/'' # r"
    using nh by (intro dropWhile_stop) simp_all
  have 1: "example_head h' = Some h'"
    using ph pp' by (simp add: example_head_def h' r tw dw Let_def)
  have 2: "h' \<noteq> []" and 3: "\<not> is_c0_or_space (hd h')"
    by (simp_all add: h' is_c0_or_space_def)
  have s: "\<forall>c \<in> set ''https://''. c \<noteq> CHR ''?'' \<and> c \<noteq> CHR ''#'' \<and> \<not> is_tab_or_newline c"
    by (simp add: is_tab_or_newline_def)
  have hc: "\<forall>c \<in> set host. c \<noteq> CHR ''?'' \<and> c \<noteq> CHR ''#'' \<and> \<not> is_tab_or_newline c"
    using plain_host_chars(2,3,4) [OF ph] by blast
  have pc: "\<forall>c \<in> set path'. c \<noteq> CHR ''?'' \<and> c \<noteq> CHR ''#'' \<and> \<not> is_tab_or_newline c"
    using plain_path_chars [OF pp'] by blast
  have 4: "\<forall>c \<in> set h'. c \<noteq> CHR ''?'' \<and> c \<noteq> CHR ''#'' \<and> \<not> is_tab_or_newline c"
    unfolding h' set_append ball_Un using s hc pc by blast
  from 1 2 3 4
  show "example_head h' = Some h' \<and> h' \<noteq> [] \<and> \<not> is_c0_or_space (hd h')
      \<and> (\<forall>c \<in> set h'. c \<noteq> CHR ''?'' \<and> c \<noteq> CHR ''#'' \<and> \<not> is_tab_or_newline c)"
    by blast
qed


text \<open>
  Claim C4. Let the platform's parser of the text before the query have the two properties
  of \<open>head_laws\<close>: what it returns is parsed to itself, and it holds no query or fragment
  delimiter. Then for every string \<open>s\<close> that \<^verbatim>\<open>new URL\<close> accepts, stripping the decorated
  string gives what stripping \<open>s\<close> itself gives, whatever the owner and the repository.
  Decoration touches the three parameters \<^verbatim>\<open>utm_source\<close>, \<^verbatim>\<open>utm_medium\<close> and
  \<^verbatim>\<open>utm_campaign\<close> only: the decorated string parses to the same URL up to the tuples of
  these three names. Stripping removes exactly the tuples of these three names.
\<close>

theorem stripUTM_addUTM_same:
  assumes "head_laws P" and "new_URL P s = Some u"
  shows "stripUTM P (addUTM P s owner repo) = stripUTM P s \<and>
         (\<exists>u'. new_URL P (addUTM P s owner repo) = Some u' \<and> head u' = head u
            \<and> fragment u' = fragment u
            \<and> filter (\<lambda>(k, v). k \<notin> utm_keys) (searchParams u')
                = filter (\<lambda>(k, v). k \<notin> utm_keys) (searchParams u)) \<and>
         stripUTM P s = url_text u (filter (\<lambda>(k, v). k \<notin> utm_keys) (searchParams u))"
proof -
  have "\<exists>u'. new_URL P (addUTM P s owner repo) = Some u' \<and> head u' = head u
            \<and> fragment u' = fragment u
            \<and> filter (\<lambda>(k, v). k \<notin> utm_keys) (searchParams u')
                = filter (\<lambda>(k, v). k \<notin> utm_keys) (searchParams u)"
    using new_URL_addUTM [OF assms] by (simp add: filter_utm_set)
  with strip_after_add [OF assms] stripUTM_parsed [OF assms(2)] show ?thesis
    by blast
qed

theorem stripUTM_addUTM_same_witness:
  "head_laws example_head \<and>
   new_URL example_head ''https://x.com?b=%FF&utm_source=zz#frag''
     = Some \<lparr>head = ''https://x.com/'', query = Some ''b=%FF&utm_source=zz'',
             fragment = Some ''frag'',
             searchParams = [(''b'', REPLACEMENT), (''utm_source'', ''zz'')]\<rparr> \<and>
   addUTM example_head ''https://x.com?b=%FF&utm_source=zz#frag'' ''o'' ''r''
     = ''https://x.com/?b=%EF%BF%BD&utm_source=github&utm_medium=o&utm_campaign=r#frag'' \<and>
   stripUTM example_head (addUTM example_head ''https://x.com?b=%FF&utm_source=zz#frag'' ''o'' ''r'')
     = stripUTM example_head ''https://x.com?b=%FF&utm_source=zz#frag'' \<and>
   stripUTM example_head ''https://x.com?b=%FF&utm_source=zz#frag''
     = ''https://x.com/?b=%EF%BF%BD#frag''"
proof -
  have p: "new_URL example_head ''https://x.com?b=%FF&utm_source=zz#frag''
     = Some \<lparr>head = ''https://x.com/'', query = Some ''b=%FF&utm_source=zz'',
             fragment = Some ''frag'',
             searchParams = [(''b'', REPLACEMENT), (''utm_source'', ''zz'')]\<rparr>"
    by code_simp
  have a: "addUTM example_head ''https://x.com?b=%FF&utm_source=zz#frag'' ''o'' ''r''
     = ''https://x.com/?b=%EF%BF%BD&utm_source=github&utm_medium=o&utm_campaign=r#frag''"
    by code_simp
  have c: "stripUTM example_head ''https://x.com?b=%FF&utm_source=zz#frag''
     = ''https://x.com/?b=%EF%BF%BD#frag''"
    by code_simp
  note t = stripUTM_addUTM_same [OF example_head_laws p, of "''o''" "''r''", THEN conjunct1]
  from example_head_laws p a c t show ?thesis
    by (intro conjI)
qed

text \<open>
  Claim C8. \<^verbatim>\<open>new URL\<close> throws exactly when the platform's parser rejects the text before
  the query, for whatever reason (no scheme, a host, a port or an address it does not
  accept). On every string on which it throws, \<^verbatim>\<open>addUTM\<close> and \<^verbatim>\<open>stripUTM\<close> return the
  string itself. Both are total functions: the \<^verbatim>\<open>catch\<close> of the source is the branch
  taken, and no error leaves either function.
\<close>

theorem addUTM_stripUTM_malformed:
  assumes "new_URL P s = None"
  shows "addUTM P s owner repo = s \<and> stripUTM P s = s \<and>
         (new_URL P s' = None \<longleftrightarrow>
            P (takeWhile (\<lambda>c. c \<noteq> CHR ''?'')
                 (takeWhile (\<lambda>c. c \<noteq> CHR ''#'') (url_preprocess s'))) = None)"
proof -
  have "new_URL P s' = None \<longleftrightarrow>
            P (takeWhile (\<lambda>c. c \<noteq> CHR ''?'')
                 (takeWhile (\<lambda>c. c \<noteq> CHR ''#'') (url_preprocess s'))) = None"
    by (simp add: new_URL_def split_first_def Let_def split: option.splits)
  with assms show ?thesis
    by (simp add: addUTM_def stripUTM_def)
qed

theorem addUTM_stripUTM_malformed_witness:
  "new_URL example_head ''http://a b/?utm_source=1'' = None \<and>
   addUTM example_head ''http://a b/?utm_source=1'' ''o'' ''r'' = ''http://a b/?utm_source=1'' \<and>
   stripUTM example_head ''http://a b/?utm_source=1'' = ''http://a b/?utm_source=1'' \<and>
   new_URL example_head ''not a url'' = None \<and>
   stripUTM example_head ''not a url'' = ''not a url'' \<and>
   new_URL example_head ''https://x.com:99999/p?utm_source=x'' = None \<and>
   stripUTM example_head ''https://x.com:99999/p?utm_source=x''
     = ''https://x.com:99999/p?utm_source=x''"
proof -
  have 1: "new_URL example_head ''http://a b/?utm_source=1'' = None"
    by code_simp
  have 2: "new_URL example_head ''not a url'' = None"
    by code_simp
  have 3: "new_URL example_head ''https://x.com:99999/p?utm_source=x'' = None"
    by code_simp
  note a = addUTM_stripUTM_malformed [OF 1, of "''o''" "''r''"]
  note b = addUTM_stripUTM_malformed [OF 2, of "''o''" "''r''"]
  note c = addUTM_stripUTM_malformed [OF 3, of "''o''" "''r''"]
  from 1 2 3 a [THEN conjunct1] a [THEN conjunct2, THEN conjunct1]
    b [THEN conjunct2, THEN conjunct1] c [THEN conjunct2, THEN conjunct1]
  show ?thesis by (intro conjI)
qed

section \<open>Deduplication and the cap\<close>

text \<open>
  Claim C6. The new items are exactly the fresh items whose stripped URL differs from the
  stripped URL of every existing link, in their order among the fresh items. Fresh items
  are compared with existing links only: without existing links every fresh item is kept,
  duplicates among them included. When the platform's parser has the two properties of
  \<open>head_laws\<close>, a fresh item whose URL is a base URL, or that URL decorated for any owner
  and repository, is dropped when an existing link holds the decorated base URL, be the
  base URL one that \<^verbatim>\<open>new URL\<close> accepts or not.
\<close>

theorem dedup_keeps:
  "dedup P freshItems existingLinks =
     filter (\<lambda>item. \<forall>e \<in> set existingLinks. stripUTM P (url e) \<noteq> stripUTM P (url item))
       freshItems \<and>
   subseq (dedup P freshItems existingLinks) freshItems \<and>
   dedup P freshItems [] = freshItems \<and>
   (head_laws P \<and> e \<in> set existingLinks
      \<and> url e = addUTM P base owner repo
      \<and> (url item = base \<or> url item = addUTM P base owner' repo')
      \<longrightarrow> item \<notin> set (dedup P freshItems existingLinks))"
proof -
  have 1: "dedup P freshItems existingLinks =
     filter (\<lambda>item. \<forall>e \<in> set existingLinks. stripUTM P (url e) \<noteq> stripUTM P (url item))
       freshItems"
    by (auto simp: dedup_def image_iff intro!: filter_cong)
  have 2: "subseq (dedup P freshItems existingLinks) freshItems"
    by (simp add: dedup_def)
  have 3: "dedup P freshItems [] = freshItems"
    by (simp add: dedup_def)
  have 4: "item \<notin> set (dedup P freshItems existingLinks)"
    if "head_laws P" and "e \<in> set existingLinks"
      and "url e = addUTM P base owner repo"
      and "url item = base \<or> url item = addUTM P base owner' repo'"
  proof -
    have "stripUTM P (url e) = stripUTM P (url item)"
    proof (cases "new_URL P base")
      case None
      with that(3,4) show ?thesis
        by (auto simp: addUTM_def)
    next
      case (Some u)
      with that(3,4) strip_after_add [OF that(1) Some] show ?thesis
        by auto
    qed
    with that(2) show ?thesis
      unfolding 1 by auto
  qed
  from 1 2 3 4 show ?thesis by blast
qed

theorem dedup_keeps_witness:
  "dedup example_head
     [\<lparr>title = ''Home'', url = ''https://x.com'', date = ''2025-06-01''\<rparr>]
     [\<lparr>title = ''Home'', url = ''https://x.com/?utm_source=github&utm_medium=o&utm_campaign=r'',
       date = ''2025-05-01''\<rparr>] = [] \<and>
   dedup example_head
     [\<lparr>title = ''Post'', url = ''https://x.com/a'', date = ''2025-06-01''\<rparr>]
     [\<lparr>title = ''Post'', url = ''https://x.com/a?utm_source=github&utm_medium=o&utm_campaign=r'',
       date = ''2025-05-01''\<rparr>] = [] \<and>
   dedup example_head [example_link ''A'', example_link ''A''] []
     = [example_link ''A'', example_link ''A'']"
proof -
  let ?item = "\<lparr>title = ''Home'', url = ''https://x.com'', date = ''2025-06-01''\<rparr>"
  let ?e = "\<lparr>title = ''Home'',
             url = ''https://x.com/?utm_source=github&utm_medium=o&utm_campaign=r'',
             date = ''2025-05-01''\<rparr>"
  let ?item2 = "\<lparr>title = ''Post'', url = ''https://x.com/a'', date = ''2025-06-01''\<rparr>"
  let ?e2 = "\<lparr>title = ''Post'',
             url = ''https://x.com/a?utm_source=github&utm_medium=o&utm_campaign=r'',
             date = ''2025-05-01''\<rparr>"
  have a: "addUTM example_head ''https://x.com'' ''o'' ''r''
             = ''https://x.com/?utm_source=github&utm_medium=o&utm_campaign=r''"
    by code_simp
  note k = dedup_keeps [where P = example_head and freshItems = "[?item]"
      and existingLinks = "[?e]" and base = "''https://x.com''" and e = ?e
      and owner = "''o''" and repo = "''r''" and item = ?item]
  have "?item \<notin> set (dedup example_head [?item] [?e])"
    by (rule k [THEN conjunct2, THEN conjunct2, THEN conjunct2, rule_format])
       (simp add: a example_head_laws)
  moreover have "set (dedup example_head [?item] [?e]) \<subseteq> {?item}"
    unfolding dedup_def Let_def by (rule order_trans [OF filter_is_subset]) simp
  ultimately have 1: "dedup example_head [?item] [?e] = []"
    by (cases "dedup example_head [?item] [?e]") auto
  have 2: "dedup example_head [?item2] [?e2] = []"
    by code_simp
  have 3: "dedup example_head [example_link ''A'', example_link ''A''] []
             = [example_link ''A'', example_link ''A'']"
    by (rule dedup_keeps [THEN conjunct2, THEN conjunct2, THEN conjunct1])
  from 1 2 3 show ?thesis by (intro conjI)
qed

text \<open>
  Claim C5. For a cap of at least one, the merge puts the new items in front of the
  existing links and keeps the first \<open>cap\<close> of them; the count of removed links is the
  number of links cut off, which are the last of the concatenation; the count of added
  links that the run reports is the number of new items. With a cap of 5, three existing
  links and four new items, five links are kept, two are removed, and the removed ones are
  the last two existing links.
\<close>

theorem merge_links_cap:
  assumes "1 \<le> cap"
  shows "merge_links (Num cap) newItems existingLinks =
           (take (nat cap) (newItems @ existingLinks),
            int (length (drop (nat cap) (newItems @ existingLinks)))) \<and>
         length (fst (merge_links (Num cap) newItems existingLinks)) \<le> nat cap \<and>
         newItems @ existingLinks =
           fst (merge_links (Num cap) newItems existingLinks)
             @ drop (nat cap) (newItems @ existingLinks) \<and>
         last (publish w i newItems parsed) =
           SetOutput ''new_items_count'' (decimal (length newItems)) \<and>
         (cap = 5 \<and> length newItems = 4 \<and> length existingLinks = 3 \<longrightarrow>
            merge_links (Num cap) newItems existingLinks = (newItems @ take 1 existingLinks, 2)
            \<and> drop (nat cap) (newItems @ existingLinks) = drop 1 existingLinks)"
proof -
  have 1: "merge_links (Num cap) newItems existingLinks =
           (take (nat cap) (newItems @ existingLinks),
            int (length (drop (nat cap) (newItems @ existingLinks))))"
    using assms
    by (auto simp del: take_append drop_append
        simp: merge_links_def num_gt_def array_slice0_def Let_def)
  then have 2: "length (fst (merge_links (Num cap) newItems existingLinks)) \<le> nat cap"
    and 3: "newItems @ existingLinks =
           fst (merge_links (Num cap) newItems existingLinks)
             @ drop (nat cap) (newItems @ existingLinks)"
    by (simp_all del: take_append drop_append)
  have 4: "last (publish w i newItems parsed) =
           SetOutput ''new_items_count'' (decimal (length newItems))"
    by (simp add: publish_def Let_def split: prod.splits)
  have 5: "merge_links (Num cap) newItems existingLinks = (newItems @ take 1 existingLinks, 2)
            \<and> drop (nat cap) (newItems @ existingLinks) = drop 1 existingLinks"
    if "cap = 5" and "length newItems = 4" and "length existingLinks = 3"
    using 1 that by simp
  from 1 2 3 4 5 show ?thesis by blast
qed


theorem merge_links_cap_witness:
  "merge_links (Num 5) (map example_link [''D'', ''E'', ''F'', ''G''])
       (map example_link [''A'', ''B'', ''C''])
     = (map example_link [''D'', ''E'', ''F'', ''G'', ''A''], 2) \<and>
   drop 5 (map example_link [''D'', ''E'', ''F'', ''G''] @ map example_link [''A'', ''B'', ''C''])
     = map example_link [''B'', ''C'']"
proof -
  have c: "(1::int) \<le> 5" by simp
  note k = merge_links_cap
    [OF c, of "map example_link [''D'', ''E'', ''F'', ''G'']"
       "map example_link [''A'', ''B'', ''C'']",
     THEN conjunct2, THEN conjunct2, THEN conjunct2, THEN conjunct2, rule_format]
  have "merge_links (Num 5) (map example_link [''D'', ''E'', ''F'', ''G''])
            (map example_link [''A'', ''B'', ''C''])
          = (map example_link [''D'', ''E'', ''F'', ''G''] @ take 1 (map example_link [''A'', ''B'', ''C'']), 2)
        \<and> drop (nat 5) (map example_link [''D'', ''E'', ''F'', ''G''] @ map example_link [''A'', ''B'', ''C''])
          = drop 1 (map example_link [''A'', ''B'', ''C''])"
    by (rule k) simp
  then show ?thesis by simp
qed

section \<open>The run\<close>

text \<open>
  Claim C9. When the inputs are read without error, at least one feed URL is given and
  deduplication leaves no new item (in particular when nothing was fetched), the run does
  exactly two things: it sets the output \<^verbatim>\<open>pr_url\<close> to the empty string and the output
  \<^verbatim>\<open>new_items_count\<close> to \<^verbatim>\<open>"0"\<close>. It does not fail, writes no file, runs no \<^verbatim>\<open>git\<close>
  command and opens no pull request.
\<close>

theorem run_no_new_items:
  assumes "read_inputs w = Inr i" and "rssUrls_of (rssUrlsRaw i) \<noteq> []"
    and "newItems_of w i = []"
  shows "run w = [SetOutput ''pr_url'' [], SetOutput ''new_items_count'' ''0'']"
  using assms by (simp add: run_def no_change_def)

theorem run_no_new_items_witness:
  "read_inputs example_world = Inr example_inputs \<and>
   fetch_feeds example_world (rssUrls_of (rssUrlsRaw example_inputs)) =
     [\<lparr>title = ''Post'', url = ''https://x.com/a'', date = ''2025-06-01''\<rparr>] \<and>
   newItems_of example_world example_inputs = [] \<and>
   run example_world = [SetOutput ''pr_url'' [], SetOutput ''new_items_count'' ''0'']"
proof -
  have 1: "read_inputs example_world = Inr example_inputs"
    by code_simp
  have 2: "rssUrls_of (rssUrlsRaw example_inputs) \<noteq> []"
    by code_simp
  have 3: "newItems_of example_world example_inputs = []"
    by code_simp
  have 4: "fetch_feeds example_world (rssUrls_of (rssUrlsRaw example_inputs)) =
     [\<lparr>title = ''Post'', url = ''https://x.com/a'', date = ''2025-06-01''\<rparr>]"
    by code_simp
  from run_no_new_items [OF 1 2 3] 1 3 4 show ?thesis
    by simp
qed

text \<open>
  Claim C7, at the input \<^verbatim>\<open>max_links: abc\<close>. \<^verbatim>\<open>parseInt\<close> yields \<^verbatim>\<open>NaN\<close>, which
  \<^verbatim>\<open>Math.max(1, ...)\<close> passes on, so \<^verbatim>\<open>maxLinks\<close> is \<^verbatim>\<open>NaN\<close>; no length is greater than
  \<^verbatim>\<open>NaN\<close>, so the merge never cuts the list. An input that starts with a number gives
  that number or 1, whichever is greater, and the default input gives 10.
\<close>

theorem max_links_not_a_number:
  "read_inputs
     (example_world\<lparr>env := map_of [(''INPUT_RSS_URLS'', ''https://f.example/feed''),
                                     (''INPUT_GITHUB_TOKEN'', ''t0ken''),
                                     (''INPUT_MAX_LINKS'', ''abc'')]\<rparr>)
     = Inr (example_inputs\<lparr>maxLinks := NaN\<rparr>) \<and>
   merge_links NaN newItems existingLinks = (newItems @ existingLinks, 0) \<and>
   Math_max 1 (parseInt10 ''abc'') = NaN \<and>
   Math_max 1 (parseInt10 ''10'') = Num 10 \<and>
   Math_max 1 (parseInt10 ''0'') = Num 1 \<and>
   Math_max 1 (parseInt10 ''-3'') = Num 1 \<and>
   Math_max 1 (parseInt10 ''25 links'') = Num 25"
proof -
  have 1: "read_inputs
     (example_world\<lparr>env := map_of [(''INPUT_RSS_URLS'', ''https://f.example/feed''),
                                     (''INPUT_GITHUB_TOKEN'', ''t0ken''),
                                     (''INPUT_MAX_LINKS'', ''abc'')]\<rparr>)
     = Inr (example_inputs\<lparr>maxLinks := NaN\<rparr>)"
    by code_simp
  have 2: "merge_links NaN newItems existingLinks = (newItems @ existingLinks, 0)"
    by (simp add: merge_links_def num_gt_def)
  have 3: "Math_max 1 (parseInt10 ''abc'') = NaN"
    by code_simp
  have 4: "Math_max 1 (parseInt10 ''10'') = Num 10"
    by code_simp
  have 5: "Math_max 1 (parseInt10 ''0'') = Num 1"
    by code_simp
  have 6: "Math_max 1 (parseInt10 ''-3'') = Num 1"
    by code_simp
  have 7: "Math_max 1 (parseInt10 ''25 links'') = Num 25"
    by code_simp
  from 1 2 3 4 5 6 7 show ?thesis by blast
qed

section \<open>Titles that sanitise to nothing\<close>

text \<open>
  Claim C10. The title \<^verbatim>\<open>[ ]\<close> is sanitised to the empty string, not to the placeholder.
  The link made from a feed item with this title is rendered as \<^verbatim>\<open>- [](url) - date\<close>,
  which the pattern of \<^verbatim>\<open>parseSection\<close> does not match: parsing a rendered section
  that holds this link and another one yields the other one only.
\<close>

theorem empty_title_dropped:
  "sanitiseTitle (Some ''[ ]'') = [] \<and>
   item_links example_world
     [\<lparr>item_title = Some ''[ ]'', item_link = Some ''https://x.com/b'', item_guid = None,
       item_pubDate = None\<rparr>]
     = [\<lparr>title = [], url = ''https://x.com/b'', date = ''2025-06-01''\<rparr>] \<and>
   render_line \<lparr>title = [], url = ''https://x.com/b'', date = ''2025-06-01''\<rparr>
     = ''- [](https://x.com/b) - 2025-06-01'' \<and>
   lineRe_at ''- [](https://x.com/b) - 2025-06-01'' = None \<and>
   links (parseSection ''2025-06-02''
            (renderSection [\<lparr>title = [], url = ''https://x.com/b'', date = ''2025-06-01''\<rparr>,
                            example_link ''A'']))
     = [example_link ''A'']"
proof -
  have 1: "sanitiseTitle (Some ''[ ]'') = []"
    by code_simp
  have 2: "item_links example_world
     [\<lparr>item_title = Some ''[ ]'', item_link = Some ''https://x.com/b'', item_guid = None,
       item_pubDate = None\<rparr>]
     = [\<lparr>title = [], url = ''https://x.com/b'', date = ''2025-06-01''\<rparr>]"
    by code_simp
  have 3: "render_line \<lparr>title = [], url = ''https://x.com/b'', date = ''2025-06-01''\<rparr>
     = ''- [](https://x.com/b) - 2025-06-01''"
    by code_simp
  have 4: "lineRe_at ''- [](https://x.com/b) - 2025-06-01'' = None"
    by code_simp
  have 5: "links (parseSection ''2025-06-02''
            (renderSection [\<lparr>title = [], url = ''https://x.com/b'', date = ''2025-06-01''\<rparr>,
                            example_link ''A'']))
     = [example_link ''A'']"
    by code_simp
  from 1 2 3 4 5 show ?thesis by blast
qed

section \<open>Finding the markers\<close>

lemma indexOf_append_skip:
  assumes "indexOf a pat = None" and "q \<noteq> []" and "hd q \<notin> set (tl pat)" and "pat \<noteq> []"
  shows "indexOf (a @ q) pat = map_option (\<lambda>i. i + length a) (indexOf q pat)"
  using assms(1)
proof (induction a)
  case Nil
  show ?case by (simp add: option.map_ident)
next
  case (Cons x a)
  from Cons.prems have np: "\<not> prefix pat (x # a)" and n: "indexOf a pat = None"
    by (auto split: if_splits)
  have "\<not> prefix pat ((x # a) @ q)"
  proof
    assume "prefix pat ((x # a) @ q)"
    then have "prefix pat (x # a) \<or> (\<exists>us. pat = (x # a) @ us \<and> prefix us q)"
      by (simp only: prefix_append)
    with np obtain us where us: "pat = (x # a) @ us" "prefix us q"
      by blast
    with np have "us \<noteq> []" by auto
    with us(2) assms(2) have "hd us = hd q"
      by (cases us; cases q) auto
    moreover have "hd us \<in> set (tl pat)"
      using \<open>us \<noteq> []\<close> us(1) by auto
    ultimately show False using assms(3) by simp
  qed
  then show ?case
    using Cons.IH [OF n] by (simp add: option.map_comp comp_def)
qed

lemma indexOf_no_first_char:
  assumes "pat \<noteq> []" and "hd pat \<notin> set a"
  shows "indexOf (a @ q) pat = map_option (\<lambda>i. i + length a) (indexOf q pat)"
  using assms(2)
proof (induction a)
  case Nil
  show ?case by (simp add: option.map_ident)
next
  case (Cons x a)
  then have "\<not> prefix pat ((x # a) @ q)"
    using assms(1) by (cases pat) auto
  then show ?case
    using Cons by (simp add: option.map_comp comp_def)
qed

lemma indexOf_self: "pat \<noteq> [] \<Longrightarrow> indexOf (pat @ r) pat = Some 0"
  by (cases pat) auto

lemma indexOf_first:
  assumes "indexOf a pat = None" and "pat \<noteq> []" and "hd pat \<notin> set (tl pat)"
  shows "indexOf (a @ pat @ r) pat = Some (length a)"
  using indexOf_append_skip [OF assms(1), of "pat @ r"] assms(2,3)
  by (simp add: indexOf_self)

lemma END_facts:
  "MARKER_END \<noteq> []" "hd MARKER_END = CHR ''<''" "CHR ''<'' \<notin> set (tl MARKER_END)"
  "length MARKER_END = 23" "LF \<notin> set MARKER_END" "CHR '']'' \<notin> set MARKER_END"
  "CHR '')'' \<notin> set MARKER_END"
  by (simp_all add: MARKER_END_def)

lemma START_facts:
  "MARKER_START \<noteq> []" "hd MARKER_START = CHR ''<''" "CHR ''<'' \<notin> set (tl MARKER_START)"
  "length MARKER_START = 25" "indexOf MARKER_START MARKER_END = None"
  "\<not> prefix MARKER_START (MARKER_END @ r)"
  by (simp_all add: MARKER_START_def MARKER_END_def)

lemma parseSection_fallback:
  "indexOf content MARKER_START = None \<or> indexOf content MARKER_END = None
     \<or> the (indexOf content MARKER_START) \<ge> the (indexOf content MARKER_END)
   \<Longrightarrow> parseSection tod content = fallback_section content"
  by (auto simp: parseSection_def fallback_section_def Let_def)

lemma parseSection_located:
  assumes "indexOf content MARKER_START = Some si" and "indexOf content MARKER_END = Some ei"
    and "si < ei"
  shows "parseSection tod content =
           \<lparr>before = take si content, after = drop (ei + 23) content,
            links = links_loop tod [] (take (ei - (si + 25)) (drop (si + 25) content))\<rparr>"
  using assms
  by (simp add: parseSection_def Let_def slice_def slice_from_def START_facts(4) END_facts(4))

lemma parseSection_between:
  assumes "indexOf a MARKER_START = None" and "indexOf (a @ MARKER_START @ b) MARKER_END = None"
  shows "parseSection tod (a @ MARKER_START @ b @ MARKER_END @ c)
           = \<lparr>before = a, after = c, links = links_loop tod [] b\<rparr>"
proof -
  have si: "indexOf (a @ MARKER_START @ b @ MARKER_END @ c) MARKER_START = Some (length a)"
    using indexOf_first [OF assms(1)] START_facts(1,2,3) by simp
  have "indexOf ((a @ MARKER_START @ b) @ MARKER_END @ c) MARKER_END
          = Some (length (a @ MARKER_START @ b))"
    using END_facts(1,2,3) by (intro indexOf_first [OF assms(2)]) simp_all
  then have ei: "indexOf (a @ MARKER_START @ b @ MARKER_END @ c) MARKER_END
                   = Some (length a + 25 + length b)"
    by (simp add: START_facts(4))
  show ?thesis
    using parseSection_located [OF si ei] by (simp add: START_facts(4) END_facts(4))
qed

lemma indexOf_not_here:
  "s \<noteq> [] \<Longrightarrow> \<not> prefix pat s \<Longrightarrow> indexOf s pat = map_option Suc (indexOf (tl s) pat)"
  by (cases s) simp_all

lemma parseSection_end_first:
  assumes "indexOf a MARKER_END = None" and "indexOf a MARKER_START = None"
  shows "parseSection tod (a @ MARKER_END @ r) = fallback_section (a @ MARKER_END @ r)"
proof -
  have ei: "indexOf (a @ MARKER_END @ r) MARKER_END = Some (length a)"
    using indexOf_first [OF assms(1)] END_facts(1,2,3) by simp
  have "indexOf (a @ MARKER_END @ r) MARKER_START
          = map_option (\<lambda>i. i + length a) (indexOf (MARKER_END @ r) MARKER_START)"
    using START_facts(1,3) END_facts(1,2)
    by (intro indexOf_append_skip [OF assms(2)]) (simp_all add: hd_append)
  moreover
  have "indexOf (MARKER_END @ r) MARKER_START
          = map_option Suc (indexOf (tl (MARKER_END @ r)) MARKER_START)"
    using START_facts(6) [of r] END_facts(1) by (intro indexOf_not_here) simp_all
  ultimately
  have "indexOf (a @ MARKER_END @ r) MARKER_START = None
          \<or> the (indexOf (a @ MARKER_END @ r) MARKER_START) \<ge> length a"
    by (cases "indexOf (tl (MARKER_END @ r)) MARKER_START") simp_all
  then show ?thesis
    using ei by (intro parseSection_fallback) auto
qed

text \<open>
  Claim C2, as amended. \<^verbatim>\<open>parseSection\<close> takes the first occurrence of the start marker
  and the first occurrence of the end marker in the whole document. When the text \<open>a\<close>
  before a start marker holds no start marker and no end marker lies within the text up
  to an end marker, the section is located: the text before the start marker, the links
  of the text between the markers, and the text after the end marker. When the first end
  marker of the document comes before every start marker, or a marker is absent, the
  result is the fallback for a document without markers, whatever follows the end marker.
\<close>

theorem parseSection_markers:
  "(indexOf a MARKER_START = None \<and> indexOf (a @ MARKER_START @ b) MARKER_END = None \<longrightarrow>
      parseSection tod (a @ MARKER_START @ b @ MARKER_END @ c)
        = \<lparr>before = a, after = c, links = links_loop tod [] b\<rparr>) \<and>
   (indexOf a MARKER_END = None \<and> indexOf a MARKER_START = None \<longrightarrow>
      parseSection tod (a @ MARKER_END @ r) = fallback_section (a @ MARKER_END @ r)) \<and>
   (indexOf content MARKER_START = None \<or> indexOf content MARKER_END = None \<longrightarrow>
      parseSection tod content = fallback_section content)"
  using parseSection_between [of a b tod c] parseSection_end_first [of a tod r]
    parseSection_fallback [of content tod]
  by blast

theorem parseSection_markers_witness:
  "parseSection ''2025-06-02'' example_file
     = \<lparr>before = ''# RSS Links'' @ [LF, LF], after = [LF],
        links = [\<lparr>title = ''Post'',
                  url = ''https://x.com/a?utm_source=github&utm_medium=o&utm_campaign=r'',
                  date = ''2025-05-01''\<rparr>]\<rparr> \<and>
   parseSection ''2025-06-02'' end_first_doc = fallback_section end_first_doc"
proof -
  let ?a = "''# RSS Links'' @ [LF, LF]"
  let ?b = "[LF]
      @ ''- [Post](https://x.com/a?utm_source=github&utm_medium=o&utm_campaign=r) - 2025-05-01''
      @ [LF]"
  let ?r = "''x'' @ MARKER_START @ [LF] @ ''- [A](https://x.com/A) - 2025-06-01'' @ [LF]
      @ MARKER_END"
  note m1 = parseSection_markers [where a = ?a and b = ?b and tod = "''2025-06-02''" and c = "[LF]"]
  note m2 = parseSection_markers [where a = "[]" and r = ?r and tod = "''2025-06-02''"]
  have 1: "indexOf ?a MARKER_START = None \<and> indexOf (?a @ MARKER_START @ ?b) MARKER_END = None"
    by code_simp
  have 2: "indexOf [] MARKER_END = None \<and> indexOf [] MARKER_START = None"
    by code_simp
  have 3: "links_loop ''2025-06-02'' [] ?b
             = [\<lparr>title = ''Post'',
                 url = ''https://x.com/a?utm_source=github&utm_medium=o&utm_campaign=r'',
                 date = ''2025-05-01''\<rparr>]"
    by code_simp
  have e: "example_file = ?a @ MARKER_START @ ?b @ MARKER_END @ [LF]"
    by (simp add: example_file_def)
  have f: "end_first_doc = [] @ MARKER_END @ ?r"
    by (simp add: end_first_doc_def)
  have "parseSection ''2025-06-02'' (?a @ MARKER_START @ ?b @ MARKER_END @ [LF])
          = \<lparr>before = ?a, after = [LF], links = links_loop ''2025-06-02'' [] ?b\<rparr>"
    by (rule m1 [THEN conjunct1, rule_format, OF 1])
  moreover
  have "parseSection ''2025-06-02'' ([] @ MARKER_END @ ?r) = fallback_section ([] @ MARKER_END @ ?r)"
    by (rule m2 [THEN conjunct2, THEN conjunct1, rule_format, OF 2])
  ultimately show ?thesis
    unfolding e f 3 by (rule conjI)
qed

text \<open>
  Claim C2 as stated fails: in a document of the form end marker, text, start marker,
  body, end marker, the first end marker lies before the start marker, so the fallback
  is taken and the link of the body is not read.
\<close>

theorem parseSection_end_first_counterexample:
  "parseSection ''2025-06-02'' end_first_doc
     = \<lparr>before = end_first_doc @ [LF, LF], after = [LF], links = []\<rparr> \<and>
   parseSection ''2025-06-02'' end_first_doc
     \<noteq> \<lparr>before = MARKER_END @ ''x'', after = [], links = [example_link ''A'']\<rparr>"
proof -
  have 1: "parseSection ''2025-06-02'' end_first_doc
     = \<lparr>before = end_first_doc @ [LF, LF], after = [LF], links = []\<rparr>"
    by code_simp
  have 2: "parseSection ''2025-06-02'' end_first_doc
     \<noteq> \<lparr>before = MARKER_END @ ''x'', after = [], links = [example_link ''A'']\<rparr>"
    by code_simp
  from 1 2 show ?thesis by (rule conjI)
qed

section \<open>Rendering and parsing again\<close>

lemma lt_prefix_iff:
  "lt_prefix s \<longleftrightarrow>
     prefix [LF] s \<or> prefix [CR] s \<or> prefix [CHR 0xE2, CHR 0x80, CHR 0xA8] s
       \<or> prefix [CHR 0xE2, CHR 0x80, CHR 0xA9] s"
  by (simp add: lt_prefix_def match_len_def lt_seqs_def)

lemma lt_prefix_bracket:
  assumes "\<not> lt_prefix (c # cs)"
  shows "\<not> lt_prefix (c # cs @ CHR '']'' # r)"
proof (cases cs)
  case Nil
  with assms show ?thesis by (simp add: lt_prefix_iff)
next
  case (Cons c2 cs2)
  show ?thesis
  proof (cases cs2)
    case Nil
    with assms Cons show ?thesis by (simp add: lt_prefix_iff)
  next
    case (Cons c3 cs3)
    with assms \<open>cs = c2 # cs2\<close> show ?thesis by (simp add: lt_prefix_iff)
  qed
qed

lemma is_date_length: "is_date d \<Longrightarrow> length d = 10"
  by (auto simp: is_date_def dest: list_all2_lengthD)

lemma opt_date_rendered:
  assumes "is_date d"
  shows "opt_date ('' - '' @ d @ rest) = Some d"
  using assms is_date_length [OF assms] by (simp add: opt_date_def)

lemma after_title_rendered:
  assumes "u \<noteq> []" and "CHR '')'' \<notin> set u" and "is_date d"
  shows "after_title ('']('' @ u @ '') - '' @ d @ rest) = Some (u, Some d, length u + 16)"
proof -
  have np: "\<forall>x \<in> set u. x \<noteq> CHR '')''"
    using assms(2) by blast
  have t: "takeWhile (\<lambda>c. c \<noteq> CHR '')'') (u @ CHR '')'' # '' - '' @ d @ rest) = u"
    using np by (intro takeWhile_stop) simp_all
  have dw: "dropWhile (\<lambda>c. c \<noteq> CHR '')'') (u @ CHR '')'' # '' - '' @ d @ rest)
              = CHR '')'' # '' - '' @ d @ rest"
    using np by (intro dropWhile_stop) simp_all
  show ?thesis
    using t dw assms(1) opt_date_rendered [OF assms(3), of rest]
    by (simp add: after_title_def Let_def)
qed

lemma after_title_no_bracket: "c \<noteq> CHR '']'' \<Longrightarrow> after_title (c # s) = None"
  by (simp add: after_title_def)

lemma title_lazy_rendered:
  assumes "t \<noteq> []" and "CHR '']'' \<notin> set t" and "no_line_terminator t"
    and "u \<noteq> []" and "CHR '')'' \<notin> set u" and "is_date d"
  shows "title_lazy acc (t @ '']('' @ u @ '') - '' @ d @ rest)
           = Some (acc @ t, u, Some d, length u + 16)"
  using assms(1,2,3)
proof (induction t arbitrary: acc)
  case Nil
  then show ?case by simp
next
  case (Cons c t)
  have nl: "\<not> lt_prefix (c # t @ CHR '']'' # CHR ''('' # u @ '') - '' @ d @ rest)"
    using Cons.prems(3) by (intro lt_prefix_bracket) simp
  show ?case
  proof (cases "t = []")
    case True
    have "\<not> lt_prefix (c # CHR '']'' # CHR ''('' # u @ '') - '' @ d @ rest)"
      using nl True by simp
    then show ?thesis
      using True after_title_rendered [OF assms(4,5,6), of rest] by simp
  next
    case False
    then obtain c2 t2 where t: "t = c2 # t2" by (cases t) auto
    with Cons.prems(2) have "c2 \<noteq> CHR '']''" by auto
    then have "after_title (t @ '']('' @ u @ '') - '' @ d @ rest) = None"
      using t by (simp add: after_title_no_bracket)
    moreover have "title_lazy (acc @ [c]) (t @ '']('' @ u @ '') - '' @ d @ rest)
                     = Some ((acc @ [c]) @ t, u, Some d, length u + 16)"
      using Cons.prems False by (intro Cons.IH) auto
    ultimately show ?thesis
      using nl by simp
  qed
qed

lemma lineRe_at_rendered:
  assumes "wf_link l"
  shows "lineRe_at (render_line l @ rest)
           = Some (title l, url l, Some (date l), length (render_line l))"
proof -
  from assms have w: "title l \<noteq> []" "CHR '']'' \<notin> set (title l)" "no_line_terminator (title l)"
    "url l \<noteq> []" "CHR '')'' \<notin> set (url l)" "is_date (date l)"
    by (simp_all add: wf_link_def)
  have "title_lazy [] (title l @ '']('' @ url l @ '') - '' @ date l @ rest)
          = Some ([] @ title l, url l, Some (date l), length (url l) + 16)"
    by (rule title_lazy_rendered [OF w])
  then show ?thesis
    using is_date_length [OF w(6)] by (simp add: lineRe_at_def render_line_def)
qed

lemma join_LF_front:
  "xs \<noteq> [] \<Longrightarrow> [LF] @ join [LF] xs = concat (map (\<lambda>x. LF # x) xs)"
proof (induction xs)
  case Nil
  then show ?case by simp
next
  case (Cons x xs)
  then show ?case by (cases "xs = []") (simp_all add: join_Cons)
qed

lemma renderSection_body: "renderSection ls = MARKER_START @ section_body ls @ MARKER_END"
proof (cases "ls = []")
  case True
  then show ?thesis by (simp add: renderSection_def section_body_def)
next
  case False
  then have "[LF] @ join [LF] (map render_line ls) = concat (map (\<lambda>x. LF # x) (map render_line ls))"
    by (intro join_LF_front) simp
  with False show ?thesis
    by (simp add: renderSection_def section_body_def comp_def)
qed

lemma links_loop_Nil: "links_loop tod bf [] = []"
  by (simp add: links_loop.simps)

lemma lineRe_at_LF: "lineRe_at (LF # s) = None"
  by (simp add: lineRe_at_def)

lemma links_loop_skip_LF: "links_loop tod bf (LF # s) = links_loop tod (bf @ [LF]) s"
  by (subst links_loop.simps) (simp add: lineRe_at_LF)

lemma at_line_start_LF: "at_line_start (bf @ [LF])"
  by (simp add: at_line_start_def match_len_def lt_seqs_def)

lemma render_line_nonempty: "render_line l \<noteq> []"
  by (simp add: render_line_def)

lemma links_loop_match:
  assumes "at_line_start bf" and "wf_link l"
  shows "links_loop tod bf (render_line l @ rest) = l # links_loop tod (bf @ render_line l) rest"
  by (subst links_loop.simps)
     (simp add: assms(1) lineRe_at_rendered [OF assms(2)] render_line_nonempty)

lemma links_loop_rendered:
  assumes "\<forall>l \<in> set ls. wf_link l"
  shows "links_loop tod bf (section_body ls) = ls"
  using assms
proof (induction ls arbitrary: bf)
  case Nil
  show ?case
    by (simp add: section_body_def links_loop_skip_LF links_loop_Nil)
next
  case (Cons l ls)
  have "section_body (l # ls) = LF # render_line l @ section_body ls"
    by (simp add: section_body_def)
  then show ?case
    using Cons at_line_start_LF [of bf]
    by (simp add: links_loop_skip_LF links_loop_match)
qed

lemma is_date_chars:
  assumes "is_date d" and "x \<in> set d"
  shows "x = CHR ''-'' \<or> is_digit x"
proof -
  from assms(2) obtain n where n: "n < length d" "d ! n = x"
    by (auto simp: in_set_conv_nth)
  let ?m = "[False, False, False, False, True, False, False, True, False, False]"
  from assms(1) have "list_all2 (\<lambda>dash c. if dash then c = CHR ''-'' else is_digit c) ?m d"
    by (simp add: is_date_def)
  from list_all2_nthD2 [OF this n(1)] n(2) show ?thesis
    by (auto split: if_splits)
qed

lemma is_date_no_lt: "is_date d \<Longrightarrow> CHR ''<'' \<notin> set d"
  using is_date_chars [of d "CHR ''<''"] by (auto simp: is_digit_def)

text \<open>The end marker does not begin inside a rendered line of a well-formed link.\<close>

lemma indexOf_END_line:
  assumes "wf_link l"
  shows "indexOf (LF # render_line l @ rest) MARKER_END
           = map_option (\<lambda>i. i + length (LF # render_line l)) (indexOf rest MARKER_END)"
proof -
  from assms have t: "indexOf (title l) MARKER_END = None"
    and u: "indexOf (url l) MARKER_END = None" and d: "is_date (date l)"
    by (simp_all add: wf_link_def)
  let ?r3 = "'') - '' @ date l @ rest"
  let ?r2 = "'']('' @ url l @ ?r3"
  have 5: "indexOf (('') - '' @ date l) @ rest) MARKER_END
             = map_option (\<lambda>i. i + length ('') - '' @ date l)) (indexOf rest MARKER_END)"
    using is_date_no_lt [OF d] END_facts(1,2) by (intro indexOf_no_first_char) simp_all
  have 4: "indexOf (url l @ ?r3) MARKER_END
             = map_option (\<lambda>i. i + length (url l)) (indexOf ?r3 MARKER_END)"
    using END_facts(1,7) by (intro indexOf_append_skip [OF u]) (auto dest: list.set_sel(2))
  have 3: "indexOf ('']('' @ url l @ ?r3) MARKER_END
             = map_option (\<lambda>i. i + length '']('') (indexOf (url l @ ?r3) MARKER_END)"
    using END_facts(1,2) by (intro indexOf_no_first_char) simp_all
  have 2: "indexOf (title l @ ?r2) MARKER_END
             = map_option (\<lambda>i. i + length (title l)) (indexOf ?r2 MARKER_END)"
    using END_facts(1,6) by (intro indexOf_append_skip [OF t]) (auto dest: list.set_sel(2))
  have 1: "indexOf ((LF # ''- ['') @ title l @ ?r2) MARKER_END
             = map_option (\<lambda>i. i + length (LF # ''- ['')) (indexOf (title l @ ?r2) MARKER_END)"
    using END_facts(1,2) by (intro indexOf_no_first_char) simp_all
  have "LF # render_line l @ rest = (LF # ''- ['') @ title l @ ?r2"
    by (simp add: render_line_def)
  then show ?thesis
    using 1 2 3 4 5
    by (simp add: option.map_comp comp_def render_line_def add.commute add.left_commute)
qed

lemma indexOf_END_lines:
  assumes "\<forall>l \<in> set ls. wf_link l"
  shows "indexOf (concat (map (\<lambda>l. LF # render_line l) ls) @ rest) MARKER_END
           = map_option (\<lambda>i. i + length (concat (map (\<lambda>l. LF # render_line l) ls)))
               (indexOf rest MARKER_END)"
  using assms
proof (induction ls)
  case Nil
  show ?case by (simp add: option.map_ident)
next
  case (Cons l ls)
  then have w: "wf_link l" and IH: "indexOf (concat (map (\<lambda>l. LF # render_line l) ls) @ rest) MARKER_END
           = map_option (\<lambda>i. i + length (concat (map (\<lambda>l. LF # render_line l) ls)))
               (indexOf rest MARKER_END)"
    by simp_all
  show ?case
    using indexOf_END_line [OF w, of "concat (map (\<lambda>l. LF # render_line l) ls) @ rest"] IH
    by (simp add: option.map_comp comp_def add.commute add.left_commute)
qed

lemma indexOf_END_body:
  assumes "\<forall>l \<in> set ls. wf_link l"
  shows "indexOf (section_body ls) MARKER_END = None"
proof -
  have "indexOf [LF] MARKER_END = None"
    by (simp add: MARKER_END_def)
  then show ?thesis
    using indexOf_END_lines [OF assms, of "[LF]"] by (simp add: section_body_def)
qed

lemma section_body_hd: "section_body ls \<noteq> []" "hd (section_body ls) = LF"
  by (cases ls; simp add: section_body_def)+

lemma indexOf_END_before_body:
  assumes "\<forall>l \<in> set ls. wf_link l" and "indexOf a MARKER_END = None"
  shows "indexOf (a @ MARKER_START @ section_body ls) MARKER_END = None"
proof -
  have "LF \<notin> set (tl MARKER_END)"
    using END_facts(1,5) by (auto dest: list.set_sel(2))
  then have "indexOf (MARKER_START @ section_body ls) MARKER_END
          = map_option (\<lambda>i. i + length MARKER_START) (indexOf (section_body ls) MARKER_END)"
    using section_body_hd [of ls] END_facts(1)
    by (intro indexOf_append_skip [OF START_facts(5)]) simp_all
  then have 1: "indexOf (MARKER_START @ section_body ls) MARKER_END = None"
    by (simp add: indexOf_END_body [OF assms(1)])
  have "indexOf (a @ MARKER_START @ section_body ls) MARKER_END
          = map_option (\<lambda>i. i + length a) (indexOf (MARKER_START @ section_body ls) MARKER_END)"
    using START_facts(1,2) END_facts(1,3)
    by (intro indexOf_append_skip [OF assms(2)]) (simp_all add: hd_append)
  with 1 show ?thesis by simp
qed

lemma parse_rendered:
  assumes "\<forall>l \<in> set ls. wf_link l" and "indexOf a MARKER_START = None"
    and "indexOf a MARKER_END = None"
  shows "parseSection tod (a @ renderSection ls @ c) = \<lparr>before = a, after = c, links = ls\<rparr>"
  using parseSection_between [OF assms(2) indexOf_END_before_body [OF assms(1,3)], of tod c]
  by (simp add: renderSection_body links_loop_rendered [OF assms(1)])

text \<open>
  Claim C1, as amended. For a list of links each of which has a non-empty title without
  square brackets and line terminators, a non-empty URL without a closing parenthesis,
  neither of them holding the end marker, and a date of the form \<^verbatim>\<open>YYYY-MM-DD\<close>:
  parsing the rendered section yields the list, rendering the parsed list yields the
  same section, and a rendered section placed between a text without markers and any
  other text is parsed into that text, the list and the other text.
\<close>

theorem render_parse_roundtrip:
  assumes "\<forall>l \<in> set ls. wf_link l"
  shows "links (parseSection tod (renderSection ls)) = ls \<and>
         renderSection (links (parseSection tod (renderSection ls))) = renderSection ls \<and>
         (indexOf a MARKER_START = None \<and> indexOf a MARKER_END = None \<longrightarrow>
            parseSection tod (a @ renderSection ls @ c) = \<lparr>before = a, after = c, links = ls\<rparr>)"
proof -
  have "parseSection tod ([] @ renderSection ls @ []) = \<lparr>before = [], after = [], links = ls\<rparr>"
    by (rule parse_rendered [OF assms]) (simp_all add: START_facts(1) END_facts(1))
  then have 1: "links (parseSection tod (renderSection ls)) = ls"
    by simp
  from 1 parse_rendered [OF assms, of a tod c] show ?thesis
    by simp
qed

theorem render_parse_roundtrip_witness:
  "wf_link (example_link ''A'') \<and>
   wf_link \<lparr>title = ''Post'',
            url = ''https://x.com/a?utm_source=github&utm_medium=o&utm_campaign=r'',
            date = ''2025-05-01''\<rparr> \<and>
   links (parseSection ''2025-06-02''
            (renderSection
               [example_link ''A'',
                \<lparr>title = ''Post'',
                 url = ''https://x.com/a?utm_source=github&utm_medium=o&utm_campaign=r'',
                 date = ''2025-05-01''\<rparr>]))
     = [example_link ''A'',
        \<lparr>title = ''Post'',
         url = ''https://x.com/a?utm_source=github&utm_medium=o&utm_campaign=r'',
         date = ''2025-05-01''\<rparr>]"
proof -
  let ?p = "\<lparr>title = ''Post'',
             url = ''https://x.com/a?utm_source=github&utm_medium=o&utm_campaign=r'',
             date = ''2025-05-01''\<rparr>"
  have 1: "wf_link (example_link ''A'')"
    by code_simp
  have 2: "wf_link ?p"
    by code_simp
  from 1 2 have w: "\<forall>l \<in> set [example_link ''A'', ?p]. wf_link l"
    by simp
  have "links (parseSection ''2025-06-02'' (renderSection [example_link ''A'', ?p]))
          = [example_link ''A'', ?p]"
    by (rule render_parse_roundtrip [OF w, THEN conjunct1])
  with 1 2 show ?thesis by blast
qed

text \<open>
  Claim C1 as stated fails. Each of these links has a title without square brackets and
  a proper date, and none comes back from rendering and parsing: a link with an empty
  title, with a closing parenthesis in its URL, with a newline in its title, with an empty
  URL, and with the end marker in its URL.
\<close>

theorem render_parse_counterexample:
  "list_all wf_claimed [untitled_link, paren_link, two_line_link, no_url_link, marker_link] \<and>
   links (parseSection ''2025-06-02'' (renderSection [untitled_link])) = [] \<and>
   links (parseSection ''2025-06-02'' (renderSection [paren_link]))
     = [\<lparr>title = ''Rust'', url = ''https://en.wikipedia.org/wiki/Rust_(language'',
         date = ''2025-06-02''\<rparr>] \<and>
   links (parseSection ''2025-06-02'' (renderSection [two_line_link])) = [] \<and>
   links (parseSection ''2025-06-02'' (renderSection [no_url_link])) = [] \<and>
   links (parseSection ''2025-06-02'' (renderSection [marker_link])) = [] \<and>
   links (parseSection ''2025-06-02'' (renderSection [untitled_link])) \<noteq> [untitled_link]"
proof -
  have 1: "list_all wf_claimed [untitled_link, paren_link, two_line_link, no_url_link, marker_link]"
    by code_simp
  have 2: "links (parseSection ''2025-06-02'' (renderSection [untitled_link])) = []"
    by code_simp
  have 3: "links (parseSection ''2025-06-02'' (renderSection [paren_link]))
     = [\<lparr>title = ''Rust'', url = ''https://en.wikipedia.org/wiki/Rust_(language'',
         date = ''2025-06-02''\<rparr>]"
    by code_simp
  have 4: "links (parseSection ''2025-06-02'' (renderSection [two_line_link])) = []"
    by code_simp
  have 5: "links (parseSection ''2025-06-02'' (renderSection [no_url_link])) = []"
    by code_simp
  have 6: "links (parseSection ''2025-06-02'' (renderSection [marker_link])) = []"
    by code_simp
  from 2 have 7: "links (parseSection ''2025-06-02'' (renderSection [untitled_link]))
                    \<noteq> [untitled_link]"
    by simp
  from 1 2 3 4 5 6 7 show ?thesis by blast
qed

end
